theory Spec2Isabelle
  imports Main "HOL-Library.Multiset"
begin

section \<open>Configuration (content-script.js, lines 3-6 and 74, 223)\<close>

definition PROFILE_REFRESH_INTERVAL :: int where
  "PROFILE_REFRESH_INTERVAL = 24 * 60 * 60 * 1000"

definition BATCH_SIZE :: nat where
  "BATCH_SIZE = 5"

definition concurrency :: nat where
  "concurrency = 8"

section \<open>Data\<close>

text \<open>
  A full Gmail message as \<^verbatim>\<open>fetchMessages\<close> returns it. The source field \<^verbatim>\<open>id\<close> is
  called \<open>email_id\<close> here (\<open>id\<close> is the identity function of HOL);
  \<open>headers\<close> is \<^verbatim>\<open>payload.headers\<close> as (name, value) pairs, empty when the payload
  is missing.
\<close>

record email =
  email_id :: string
  headers :: "(string \<times> string) list"
  snippet :: string

text \<open>
  The six fields of the schema of lines 256-277. The source field \<^verbatim>\<open>id\<close> is
  \<open>analysis_id\<close>. The schema types \<^verbatim>\<open>score\<close> as a number; the prompt asks for 0 to 100
  and the placeholder uses -1, so scores are integers here.
\<close>

record analysisData =
  analysis_id :: string
  score :: int
  summarizedTitle :: string
  summaryPoints :: "string list"
  positiveReasons :: "string list"
  negativeReasons :: "string list"

text \<open>An element of \<^verbatim>\<open>processedEmails\<close>: \<^verbatim>\<open>{...email, analysisData: {...}}\<close>.\<close>

record processedEmail = email +
  analysisData :: analysisData

record userProfile =
  highPrioritySenders :: "string list"
  highPriorityKeywords :: "string list"
  lowPrioritySenders :: "string list"
  lowPriorityKeywords :: "string list"

text \<open>A settled promise: what an \<^verbatim>\<open>await\<close> either throws or yields.\<close>

datatype 'a settled = Rejected | Fulfilled 'a

text \<open>
  An HTTP response: \<^verbatim>\<open>response.ok\<close> is the status being in 200..299; \<open>json\<close> is
  what \<^verbatim>\<open>response.json()\<close> settles to.
\<close>

record 'a response =
  status :: nat
  json :: "'a settled"

definition ok :: "'a response \<Rightarrow> bool" where
  "ok r = (200 \<le> status r \<and> status r \<le> 299)"

text \<open>
  The search queries the source sends: lines 107-110 and, with the timestamp in
  seconds, line 199.
\<close>

datatype query =
  ImportantOrStarred
  | UnreadOlderThan2d
  | InSpam
  | InTrash
  | RecentUnread int

text \<open>
  The Gmail HTTP surface, each function taking the bearer token first:
  the list call (its body is \<^verbatim>\<open>listJson.messages\<close>, \<open>None\<close> when the field is
  absent, each entry the id of a message), the single-message call followed by
  \<^verbatim>\<open>.then((r) => r.json())\<close>, whose body is taken to be a message, and the modify
  call (its body is \<^verbatim>\<open>error.error.message\<close>, \<open>None\<close> when that path is missing).
\<close>

record gmail =
  listMessages :: "string \<Rightarrow> query \<Rightarrow> nat \<Rightarrow> (string list option) response settled"
  getMessage :: "string \<Rightarrow> string \<Rightarrow> email settled"
  modifyMessage :: "string \<Rightarrow> string \<Rightarrow> string list \<Rightarrow> string list \<Rightarrow> (string option) response settled"

text \<open>
  What one scoring call \<^verbatim>\<open>JSON.parse(await state.aiSession.prompt(...))\<close> comes to:
  the prompt rejects or the text does not parse (\<open>CallFailed\<close>, the \<^verbatim>\<open>catch\<close> of line
  295), the text parses to something that is not an array (\<open>ParsedOther\<close>), or it
  parses to an array, whose items the response constraint makes objects with the
  six required fields.
\<close>

datatype aiOutcome =
  CallFailed
  | ParsedOther
  | ParsedArray "analysisData list"

text \<open>
  The content of a scoring prompt: the profile and \<^verbatim>\<open>emailsToScore\<close>, each item
  (id, from, subject, snippet). The content of the profile prompt: the four
  simple lists of (from, subject).
\<close>

type_synonym emailToScore = "string \<times> string \<times> string \<times> string"

type_synonym scorePrompt = "userProfile \<times> emailToScore list"

type_synonym profilePrompt =
  "(string \<times> string) list \<times> (string \<times> string) list \<times> (string \<times> string) list \<times> (string \<times> string) list"

text \<open>
  The language-model session. It keeps its conversation, so the answer to a
  scoring prompt may depend on the prompts sent before it in the scan.
\<close>

record aiSession =
  promptProfile :: "profilePrompt \<Rightarrow> userProfile settled"
  promptScores :: "scorePrompt list \<Rightarrow> scorePrompt \<Rightarrow> aiOutcome"

record state =
  accessToken :: "string option"
  isSignedIn :: bool
  aiSession :: "aiSession option"

record storageData =
  USER_PROFILE :: "userProfile option"
  LAST_ANALYSIS_TIMESTAMP :: "int option"

datatype error =
  ApiListFailed nat
  | FetchRejected
  | JsonRejected
  | AiSessionNotAvailable
  | CouldNotGenerateProfile
  | AuthTokenNotFound
  | ApiError "string option"

section \<open>Array helpers of the language\<close>

definition slice :: "nat \<Rightarrow> nat \<Rightarrow> 'a list \<Rightarrow> 'a list" where
  "slice i j xs = take (j - i) (drop i xs)"

text \<open>\<^verbatim>\<open>findIndex\<close>: the first index whose element satisfies the test, \<open>None\<close> for -1.\<close>

fun findIndex :: "('a \<Rightarrow> bool) \<Rightarrow> 'a list \<Rightarrow> nat option" where
  "findIndex P [] = None"
| "findIndex P (x # xs) = (if P x then Some 0 else map_option Suc (findIndex P xs))"

text \<open>\<^verbatim>\<open>Promise.all\<close>: rejects when one promise rejects, else yields the values in order.\<close>

fun promiseAll :: "'a settled list \<Rightarrow> 'a list settled" where
  "promiseAll [] = Fulfilled []"
| "promiseAll (Rejected # ps) = Rejected"
| "promiseAll (Fulfilled x # ps) =
     (case promiseAll ps of Rejected \<Rightarrow> Rejected | Fulfilled xs \<Rightarrow> Fulfilled (x # xs))"

text \<open>
  \<^verbatim>\<open>Array.prototype.sort\<close> with a comparator. The language requires the sort to be
  stable; it is modelled as the stable insertion sort: an element goes before the
  first element of the sorted rest that the comparator does not put before it.
\<close>

fun insertSorted :: "('a \<Rightarrow> 'a \<Rightarrow> int) \<Rightarrow> 'a \<Rightarrow> 'a list \<Rightarrow> 'a list" where
  "insertSorted cmp x [] = [x]"
| "insertSorted cmp x (y # ys) =
     (if cmp x y \<le> 0 then x # y # ys else y # insertSorted cmp x ys)"

fun sortArray :: "('a \<Rightarrow> 'a \<Rightarrow> int) \<Rightarrow> 'a list \<Rightarrow> 'a list" where
  "sortArray cmp [] = []"
| "sortArray cmp (x # xs) = insertSorted cmp x (sortArray cmp xs)"

text \<open>\<^verbatim>\<open>toLowerCase\<close> on the letters A to Z, which is all a header name needs.\<close>

definition toLowerCase :: "string \<Rightarrow> string" where
  "toLowerCase s =
     map (\<lambda>c. if 65 \<le> (of_char c :: nat) \<and> (of_char c :: nat) \<le> 90
               then char_of (of_char c + (32 :: nat)) else c) s"

section \<open>fetchMessages (lines 56-94)\<close>

text \<open>The loop of lines 75-88: windows of \<open>concurrency\<close> detail fetches, each awaited whole.\<close>

function fetchDetails ::
  "gmail \<Rightarrow> string \<Rightarrow> string list \<Rightarrow> nat \<Rightarrow> email list \<Rightarrow> error + email list" where
  "fetchDetails net token messages i details =
     (if i < length messages then
        (case promiseAll (map (getMessage net token) (slice i (i + concurrency) messages)) of
           Rejected \<Rightarrow> Inl FetchRejected
         | Fulfilled ds \<Rightarrow> fetchDetails net token messages (i + concurrency) (details @ ds))
      else Inr details)"
  by pat_completeness auto
termination
  by (relation "measure (\<lambda>(net, token, messages, i, details). length messages - i)")
     (auto simp: concurrency_def)

text \<open>The body of the \<^verbatim>\<open>try\<close> of lines 58-89: \<open>Inl\<close> is what it throws.\<close>

definition fetchMessages_try ::
  "gmail \<Rightarrow> string \<Rightarrow> query \<Rightarrow> nat \<Rightarrow> error + email list" where
  "fetchMessages_try net token q maxResults =
     (case listMessages net token q maxResults of
        Rejected \<Rightarrow> Inl FetchRejected
      | Fulfilled listRes \<Rightarrow>
          if \<not> ok listRes then Inl (ApiListFailed (status listRes))
          else (case json listRes of
                  Rejected \<Rightarrow> Inl JsonRejected
                | Fulfilled None \<Rightarrow> Inr []
                | Fulfilled (Some messages) \<Rightarrow> fetchDetails net token messages 0 []))"

text \<open>
  \<^verbatim>\<open>!state.accessToken\<close> holds for a missing token and for the empty string. The
  \<^verbatim>\<open>catch\<close> of lines 90-93 logs and returns the empty array.
\<close>

definition fetchMessages :: "state \<Rightarrow> gmail \<Rightarrow> query \<Rightarrow> nat \<Rightarrow> email list" where
  "fetchMessages st net q maxResults =
     (case accessToken st of
        None \<Rightarrow> []
      | Some token \<Rightarrow>
          if token = [] then []
          else (case fetchMessages_try net token q maxResults of
                  Inl err \<Rightarrow> []
                | Inr details \<Rightarrow> details))"

section \<open>generateUserProfile (lines 101-185)\<close>

text \<open>
  \<^verbatim>\<open>(headers.find((h) => h.name.toLowerCase() === name) || {}).value || ""\<close>
\<close>

definition headerValue :: "string \<Rightarrow> (string \<times> string) list \<Rightarrow> string" where
  "headerValue name hs =
     (case find (\<lambda>h. toLowerCase (fst h) = name) hs of
        None \<Rightarrow> []
      | Some h \<Rightarrow> snd h)"

definition toSimpleList :: "email list \<Rightarrow> (string \<times> string) list" where
  "toSimpleList emails =
     map (\<lambda>e. (headerValue ''from'' (headers e), headerValue ''subject'' (headers e))) emails"

text \<open>
  \<open>buildTime\<close> is the \<^verbatim>\<open>Date.now()\<close> of line 178. The result carries the storage
  after \<^verbatim>\<open>storage.set\<close>, which writes both keys and is taken to succeed. A prompt
  that rejects and a text that does not parse both end in the \<^verbatim>\<open>catch\<close> of line 181.
\<close>

definition generateUserProfile ::
  "state \<Rightarrow> gmail \<Rightarrow> int \<Rightarrow> error + (userProfile \<times> storageData)" where
  "generateUserProfile st net buildTime =
     (case aiSession st of
        None \<Rightarrow> Inl AiSessionNotAvailable
      | Some ai \<Rightarrow>
          (let importantEmails = fetchMessages st net ImportantOrStarred 15;
               unreadEmails = fetchMessages st net UnreadOlderThan2d 15;
               spamEmails = fetchMessages st net InSpam 10;
               trashedEmails = fetchMessages st net InTrash 10
           in case promptProfile ai (toSimpleList importantEmails, toSimpleList unreadEmails,
                                     toSimpleList spamEmails, toSimpleList trashedEmails) of
                Rejected \<Rightarrow> Inl CouldNotGenerateProfile
              | Fulfilled profile \<Rightarrow>
                  Inr (profile, \<lparr>USER_PROFILE = Some profile,
                                 LAST_ANALYSIS_TIMESTAMP = Some buildTime\<rparr>)))"

section \<open>scoreRecentEmails (lines 192-318)\<close>

text \<open>The placeholder of lines 212-219 and the failure record of lines 305-312.\<close>

definition placeholderAnalysis :: "string \<Rightarrow> analysisData" where
  "placeholderAnalysis i =
     \<lparr>analysis_id = i, score = - 1, summarizedTitle = ''Analyzing...'',
      summaryPoints = [], positiveReasons = [], negativeReasons = []\<rparr>"

definition failedAnalysis :: "string \<Rightarrow> analysisData" where
  "failedAnalysis i =
     \<lparr>analysis_id = i, score = 0, summarizedTitle = ''AI analysis failed for this email.'',
      summaryPoints = [], positiveReasons = [],
      negativeReasons = [''AI model failed to process this batch.'']\<rparr>"

definition withAnalysis :: "email \<Rightarrow> analysisData \<Rightarrow> processedEmail" where
  "withAnalysis e a =
     \<lparr>email_id = email_id e, headers = headers e, snippet = snippet e, analysisData = a\<rparr>"

definition toEmailToScore :: "email \<Rightarrow> emailToScore" where
  "toEmailToScore e =
     (email_id e, headerValue ''from'' (headers e), headerValue ''subject'' (headers e), snippet e)"

text \<open>
  Lines 287-292 and 301-313: one step of each \<^verbatim>\<open>forEach\<close>. The assignment is to
  the object at the index found, in the array as it is at that moment.
\<close>

definition applyAnalysisResult :: "analysisData \<Rightarrow> processedEmail list \<Rightarrow> processedEmail list" where
  "applyAnalysisResult analysisResult processedEmails =
     (case findIndex (\<lambda>e. email_id e = analysis_id analysisResult) processedEmails of
        None \<Rightarrow> processedEmails
      | Some emailIndex \<Rightarrow>
          processedEmails[emailIndex :=
            (processedEmails ! emailIndex)\<lparr>analysisData := analysisResult\<rparr>])"

definition markFailed :: "email \<Rightarrow> processedEmail list \<Rightarrow> processedEmail list" where
  "markFailed failedEmail processedEmails =
     (case findIndex (\<lambda>e. email_id e = email_id failedEmail) processedEmails of
        None \<Rightarrow> processedEmails
      | Some emailIndex \<Rightarrow>
          processedEmails[emailIndex :=
            (processedEmails ! emailIndex)\<lparr>analysisData := failedAnalysis (email_id failedEmail)\<rparr>])"

text \<open>The \<^verbatim>\<open>try\<close>/\<^verbatim>\<open>catch\<close> of lines 279-315, given what the call came to.\<close>

definition mergeOutcome ::
  "aiOutcome \<Rightarrow> email list \<Rightarrow> processedEmail list \<Rightarrow> processedEmail list" where
  "mergeOutcome outcome batch processedEmails =
     (case outcome of
        CallFailed \<Rightarrow> fold markFailed batch processedEmails
      | ParsedOther \<Rightarrow> processedEmails
      | ParsedArray batchResults \<Rightarrow> fold applyAnalysisResult batchResults processedEmails)"

text \<open>
  What a scan leaves behind: the array \<^verbatim>\<open>processedEmails\<close>, the argument of each
  call of the sink as it was at the call, and the prompts sent to the session.
  (For an empty window no array is made and the sink gets a fresh empty one.)
  The sink receives the array itself, so it is a function from the array's
  content at the call to its content when the sink returns.
\<close>

record scan =
  processedEmails :: "processedEmail list"
  sinkCalls :: "processedEmail list list"
  prompts :: "scorePrompt list"

function scoreLoop ::
  "aiSession \<Rightarrow> userProfile \<Rightarrow> (processedEmail list \<Rightarrow> processedEmail list) \<Rightarrow>
   email list \<Rightarrow> nat \<Rightarrow> scan \<Rightarrow> scan" where
  "scoreLoop ai profile onBatchProcessed recentEmails i s =
     (if i < length recentEmails then
        (let batch = slice i (i + BATCH_SIZE) recentEmails;
             prompt = (profile, map toEmailToScore batch);
             merged = mergeOutcome (promptScores ai (prompts s) prompt) batch (processedEmails s)
         in scoreLoop ai profile onBatchProcessed recentEmails (i + BATCH_SIZE)
              \<lparr>processedEmails = onBatchProcessed merged,
               sinkCalls = sinkCalls s @ [merged],
               prompts = prompts s @ [prompt]\<rparr>)
      else s)"
  by pat_completeness auto
termination
  by (relation "measure (\<lambda>(ai, profile, onBatchProcessed, recentEmails, i, s). length recentEmails - i)")
     (auto simp: BATCH_SIZE_def)

text \<open>
  \<open>twoDaysAgo\<close> is the clock reading of lines 196-197 in milliseconds;
  \<^verbatim>\<open>Math.floor\<close> of its thousandth is the integer quotient.
\<close>

definition scoreRecentEmails ::
  "state \<Rightarrow> gmail \<Rightarrow> int \<Rightarrow> userProfile \<Rightarrow> (processedEmail list \<Rightarrow> processedEmail list) \<Rightarrow>
   error + scan" where
  "scoreRecentEmails st net twoDaysAgo profile onBatchProcessed =
     (case aiSession st of
        None \<Rightarrow> Inl AiSessionNotAvailable
      | Some ai \<Rightarrow>
          (let recentEmails = fetchMessages st net (RecentUnread (twoDaysAgo div 1000)) 7
           in if length recentEmails = 0
              then Inr \<lparr>processedEmails = [], sinkCalls = [[]], prompts = []\<rparr>
              else (let seeded = map (\<lambda>e. withAnalysis e (placeholderAnalysis (email_id e))) recentEmails
                    in Inr (scoreLoop ai profile onBatchProcessed recentEmails 0
                              \<lparr>processedEmails = onBatchProcessed seeded,
                               sinkCalls = [seeded],
                               prompts = []\<rparr>))))"

section \<open>modifyEmail (lines 324-352)\<close>

text \<open>The body of the \<^verbatim>\<open>try\<close> of lines 326-345: \<open>Inl\<close> is what it throws.\<close>

definition modifyEmail_try ::
  "gmail \<Rightarrow> string \<Rightarrow> string \<Rightarrow> string list \<Rightarrow> string list \<Rightarrow> error + bool" where
  "modifyEmail_try net token messageId addLabelIds removeLabelIds =
     (case modifyMessage net token messageId addLabelIds removeLabelIds of
        Rejected \<Rightarrow> Inl FetchRejected
      | Fulfilled response \<Rightarrow>
          if \<not> ok response
          then (case json response of
                  Rejected \<Rightarrow> Inl JsonRejected
                | Fulfilled message \<Rightarrow> Inl (ApiError message))
          else Inr True)"

text \<open>
  \<open>Inl\<close> is what the operation throws to its caller; \<open>Inr\<close> carries the boolean
  returned and what the \<^verbatim>\<open>catch\<close> of lines 346-349 logged.
\<close>

definition modifyEmail ::
  "state \<Rightarrow> gmail \<Rightarrow> string \<Rightarrow> string list \<Rightarrow> string list \<Rightarrow> error + (bool \<times> error list)" where
  "modifyEmail st net messageId addLabelIds removeLabelIds =
     (case accessToken st of
        None \<Rightarrow> Inl AuthTokenNotFound
      | Some token \<Rightarrow>
          if token = [] then Inl AuthTokenNotFound
          else (case modifyEmail_try net token messageId addLabelIds removeLabelIds of
                  Inl err \<Rightarrow> Inr (False, [err])
                | Inr b \<Rightarrow> Inr (b, [])))"

definition deleteEmail :: "state \<Rightarrow> gmail \<Rightarrow> string \<Rightarrow> error + (bool \<times> error list)" where
  "deleteEmail st net messageId = modifyEmail st net messageId [''TRASH''] []"

definition markEmailAsRead :: "state \<Rightarrow> gmail \<Rightarrow> string \<Rightarrow> error + (bool \<times> error list)" where
  "markEmailAsRead st net messageId = modifyEmail st net messageId [] [''UNREAD'']"

section \<open>renderEmails (lines 414-618)\<close>

text \<open>
  What \<^verbatim>\<open>renderEmails\<close> does to the array it is given: nothing when it is empty,
  else the in-place sort of line 422. The cards it builds are not modelled.
\<close>

definition renderEmails :: "processedEmail list \<Rightarrow> processedEmail list" where
  "renderEmails emails =
     (if length emails = 0 then emails
      else sortArray (\<lambda>a b. score (analysisData b) - score (analysisData a)) emails)"

section \<open>analyzeAndDisplayEmails (lines 360-408)\<close>

text \<open>\<^verbatim>\<open>!lastAnalysis\<close> holds for a missing timestamp and for 0.\<close>

definition isProfileStale :: "int \<Rightarrow> int option \<Rightarrow> bool" where
  "isProfileStale now lastAnalysis =
     (case lastAnalysis of
        None \<Rightarrow> True
      | Some t \<Rightarrow> t = 0 \<or> now - t > PROFILE_REFRESH_INTERVAL)"

text \<open>
  Lines 370-389: the stored profile or a new one. \<open>generated\<close> tells whether
  \<^verbatim>\<open>generateUserProfile\<close> was called, \<open>loaded\<close> is the profile or what the call
  threw, \<open>stored\<close> the storage afterwards.
\<close>

record profileLoad =
  generated :: bool
  loaded :: "error + userProfile"
  stored :: storageData

definition loadUserProfile ::
  "state \<Rightarrow> gmail \<Rightarrow> storageData \<Rightarrow> int \<Rightarrow> int \<Rightarrow> profileLoad" where
  "loadUserProfile st net data now buildTime =
     (let lastAnalysis = LAST_ANALYSIS_TIMESTAMP data;
          stale = isProfileStale now lastAnalysis;
          rebuilt = (case generateUserProfile st net buildTime of
                       Inl err \<Rightarrow> \<lparr>generated = True, loaded = Inl err, stored = data\<rparr>
                     | Inr (profile, data') \<Rightarrow>
                         \<lparr>generated = True, loaded = Inr profile, stored = data'\<rparr>)
      in case USER_PROFILE data of
           None \<Rightarrow> rebuilt
         | Some profile \<Rightarrow>
             if stale then rebuilt
             else \<lparr>generated = False, loaded = Inr profile, stored = data\<rparr>)"

datatype analysis =
  PleaseSignIn
  | ErrorShown error
  | AnalysisComplete scan

definition analyzeAndDisplayEmails ::
  "state \<Rightarrow> gmail \<Rightarrow> storageData \<Rightarrow> int \<Rightarrow> int \<Rightarrow> int \<Rightarrow> analysis \<times> storageData" where
  "analyzeAndDisplayEmails st net data now buildTime twoDaysAgo =
     (if \<not> isSignedIn st \<or> aiSession st = None then (PleaseSignIn, data)
      else (let pl = loadUserProfile st net data now buildTime
            in case loaded pl of
                 Inl err \<Rightarrow> (ErrorShown err, stored pl)
               | Inr profile \<Rightarrow>
                   (case scoreRecentEmails st net twoDaysAgo profile renderEmails of
                      Inl err \<Rightarrow> (ErrorShown err, stored pl)
                    | Inr s \<Rightarrow> (AnalysisComplete s, stored pl))))"

section \<open>The merge, message by message\<close>

text \<open>
  What the \<^verbatim>\<open>try\<close>/\<^verbatim>\<open>catch\<close> of lines 279-315 makes of one message, told by the
  message's id: on a failed call the failure record when the message is in the
  batch; on a parsed array the last entry that carries the message's id, if there
  is one. \<open>mergeOutcome\<close> is compared with it below.
\<close>

definition mergedEmail :: "aiOutcome \<Rightarrow> email list \<Rightarrow> processedEmail \<Rightarrow> processedEmail" where
  "mergedEmail outcome batch e =
     (case outcome of
        CallFailed \<Rightarrow>
          if email_id e \<in> email_id ` set batch
          then e\<lparr>analysisData := failedAnalysis (email_id e)\<rparr> else e
      | ParsedOther \<Rightarrow> e
      | ParsedArray batchResults \<Rightarrow>
          (case find (\<lambda>r. analysis_id r = email_id e) (rev batchResults) of
             None \<Rightarrow> e
           | Some r \<Rightarrow> e\<lparr>analysisData := r\<rparr>))"

text \<open>
  The analysis a collection holds for an id: that of the first element carrying
  the id, the one \<^verbatim>\<open>findIndex\<close> would find; \<open>None\<close> when no element carries it.
\<close>

definition analysisOf :: "string \<Rightarrow> processedEmail list \<Rightarrow> analysisData option" where
  "analysisOf x c = map_option analysisData (find (\<lambda>e. email_id e = x) c)"

section \<open>Example inputs\<close>

text \<open>
  A mailbox that lists the given ids and serves a message for each, a mail
  store that cannot be reached, a session that answers scoring prompts by a given
  function, and a signed-in state.
\<close>

definition msg :: "string \<Rightarrow> email" where
  "msg i = \<lparr>email_id = i, headers = [(''From'', ''a@b.c''), (''Subject'', ''hello'')], snippet = ''text''\<rparr>"

definition scored :: "string \<Rightarrow> int \<Rightarrow> analysisData" where
  "scored i n =
     \<lparr>analysis_id = i, score = n, summarizedTitle = ''title'',
      summaryPoints = [], positiveReasons = [], negativeReasons = []\<rparr>"

definition mailbox :: "string list \<Rightarrow> gmail" where
  "mailbox ids =
     \<lparr>listMessages = (\<lambda>token q maxResults. Fulfilled \<lparr>status = 200, json = Fulfilled (Some ids)\<rparr>),
      getMessage = (\<lambda>token i. Fulfilled (msg i)),
      modifyMessage = (\<lambda>token i adds removes. Fulfilled \<lparr>status = 204, json = Rejected\<rparr>)\<rparr>"

definition unreachable :: gmail where
  "unreachable =
     \<lparr>listMessages = (\<lambda>token q maxResults. Rejected),
      getMessage = (\<lambda>token i. Rejected),
      modifyMessage = (\<lambda>token i adds removes. Rejected)\<rparr>"

definition noProfile :: userProfile where
  "noProfile = \<lparr>highPrioritySenders = [], highPriorityKeywords = [],
                lowPrioritySenders = [], lowPriorityKeywords = []\<rparr>"

definition session :: "(scorePrompt list \<Rightarrow> scorePrompt \<Rightarrow> aiOutcome) \<Rightarrow> aiSession" where
  "session f = \<lparr>promptProfile = (\<lambda>p. Fulfilled noProfile), promptScores = f\<rparr>"

definition signedIn :: "aiSession \<Rightarrow> state" where
  "signedIn ai = \<lparr>accessToken = Some ''token'', isSignedIn = True, aiSession = Some ai\<rparr>"

text \<open>
  Sessions for the examples: one that scores every message of the batch it is
  asked about (90 for two of the ids, 50 for the others); one whose second answer
  names a message of the first batch again; one whose first call fails. And the
  collection of placeholders for a list of ids.
\<close>

definition tiered :: "scorePrompt list \<Rightarrow> scorePrompt \<Rightarrow> aiOutcome" where
  "tiered h q =
     ParsedArray (map (\<lambda>item. scored (fst item) (if fst item \<in> {''b'', ''f''} then 90 else 50)) (snd q))"

definition crossing :: "scorePrompt list \<Rightarrow> scorePrompt \<Rightarrow> aiOutcome" where
  "crossing h q =
     (if h = []
      then ParsedArray [scored ''a'' 10, scored ''b'' 50, scored ''c'' 20, scored ''d'' 20, scored ''e'' 20]
      else ParsedArray [scored ''f'' 5, scored ''a'' 50])"

definition failingFirst :: "scorePrompt list \<Rightarrow> scorePrompt \<Rightarrow> aiOutcome" where
  "failingFirst h q = (if h = [] then CallFailed else ParsedArray [scored ''f'' 70])"

definition seeded :: "string list \<Rightarrow> processedEmail list" where
  "seeded ids = map (\<lambda>i. withAnalysis (msg i) (placeholderAnalysis i)) ids"

text \<open>
  More sessions: one whose first answer scores only \<open>b\<close> and whose second answer
  names \<open>a\<close>, a message of the first batch; one whose first answer names \<open>f\<close>, a
  message of the second batch, and whose second call fails; one whose first call
  fails and whose second answer names \<open>a\<close>. And a mailbox that serves, for some
  of the ids it lists, a body without an id (here the empty id), the listed id
  kept in the snippet to tell such bodies apart.
\<close>

definition catchingUp :: "scorePrompt list \<Rightarrow> scorePrompt \<Rightarrow> aiOutcome" where
  "catchingUp h q =
     (if h = [] then ParsedArray [scored ''b'' 50] else ParsedArray [scored ''f'' 5, scored ''a'' 77])"

definition namingAhead :: "scorePrompt list \<Rightarrow> scorePrompt \<Rightarrow> aiOutcome" where
  "namingAhead h q =
     (if h = [] then ParsedArray [scored ''a'' 80, scored ''f'' 60] else CallFailed)"

definition revisiting :: "scorePrompt list \<Rightarrow> scorePrompt \<Rightarrow> aiOutcome" where
  "revisiting h q =
     (if h = [] then CallFailed else ParsedArray [scored ''f'' 5, scored ''a'' 50])"

definition damaged :: "string list \<Rightarrow> string list \<Rightarrow> gmail" where
  "damaged ids bad =
     \<lparr>listMessages = (\<lambda>token q maxResults. Fulfilled \<lparr>status = 200, json = Fulfilled (Some ids)\<rparr>),
      getMessage = (\<lambda>token i. Fulfilled (if i \<in> set bad
                                 then \<lparr>email_id = [], headers = [], snippet = i\<rparr> else msg i)),
      modifyMessage = (\<lambda>token i adds removes. Fulfilled \<lparr>status = 204, json = Rejected\<rparr>)\<rparr>"

section \<open>Properties of the helpers\<close>

declare scoreLoop.simps [simp del]
declare fetchDetails.simps [simp del]

lemma insertSorted_insort_key:
  "insertSorted (\<lambda>a b. f b - f a) x ys = insort_key (\<lambda>e. - f e) x ys"
  for f :: "'a \<Rightarrow> int"
  by (induction ys) auto

lemma sortArray_sort_key:
  "sortArray (\<lambda>a b. f b - f a) xs = sort_key (\<lambda>e. - f e) xs"
  for f :: "'a \<Rightarrow> int"
  by (induction xs) (auto simp: insertSorted_insort_key)

lemma renderEmails_sort_key:
  "renderEmails emails = sort_key (\<lambda>e. - score (analysisData e)) emails"
  by (cases emails) (simp_all add: renderEmails_def sortArray_sort_key del: sortArray.simps)

lemma findIndex_update_map:
  "distinct (map key xs) \<Longrightarrow>
   (case findIndex (\<lambda>e. key e = v) xs of None \<Rightarrow> xs | Some k \<Rightarrow> xs[k := g (xs ! k)])
     = map (\<lambda>e. if key e = v then g e else e) xs"
proof (induction xs)
  case Nil
  then show ?case by simp
next
  case (Cons x xs)
  show ?case
  proof (cases "key x = v")
    case True
    with Cons.prems have "v \<notin> key ` set xs" by simp
    then have "\<forall>e\<in>set xs. key e \<noteq> v" by blast
    then have "map (\<lambda>e. if key e = v then g e else e) xs = xs"
      by (induction xs) auto
    with True show ?thesis by simp
  next
    case False
    with Cons show ?thesis by (auto split: option.splits)
  qed
qed

lemma applyAnalysisResult_map:
  "distinct (map email_id ps) \<Longrightarrow>
   applyAnalysisResult r ps
     = map (\<lambda>e. if email_id e = analysis_id r then e\<lparr>analysisData := r\<rparr> else e) ps"
  unfolding applyAnalysisResult_def
  by (rule findIndex_update_map [where key = email_id and g = "\<lambda>e. e\<lparr>analysisData := r\<rparr>"])

lemma markFailed_map:
  "distinct (map email_id ps) \<Longrightarrow>
   markFailed f ps
     = map (\<lambda>e. if email_id e = email_id f
                 then e\<lparr>analysisData := failedAnalysis (email_id f)\<rparr> else e) ps"
  unfolding markFailed_def
  by (rule findIndex_update_map
        [where key = email_id and g = "\<lambda>e. e\<lparr>analysisData := failedAnalysis (email_id f)\<rparr>"])

lemma find_append_cases:
  "find P (xs @ ys) = (case find P xs of None \<Rightarrow> find P ys | Some x \<Rightarrow> Some x)"
  by (induction xs) auto

lemma fold_applyAnalysisResult_map:
  "distinct (map email_id ps) \<Longrightarrow>
   fold applyAnalysisResult rs ps
     = map (\<lambda>e. case find (\<lambda>r. analysis_id r = email_id e) (rev rs) of
                   None \<Rightarrow> e
                 | Some r \<Rightarrow> e\<lparr>analysisData := r\<rparr>) ps"
proof (induction rs arbitrary: ps)
  case Nil
  then show ?case by simp
next
  case (Cons r rs)
  let ?ps = "map (\<lambda>e. if email_id e = analysis_id r then e\<lparr>analysisData := r\<rparr> else e) ps"
  have ids: "map email_id ?ps = map email_id ps"
    by (induction ps) auto
  have d: "distinct (map email_id ?ps)"
    unfolding ids by (rule Cons.prems)
  have "fold applyAnalysisResult (r # rs) ps = fold applyAnalysisResult rs ?ps"
    using Cons.prems by (simp add: applyAnalysisResult_map)
  also have "\<dots> = map (\<lambda>e. case find (\<lambda>r. analysis_id r = email_id e) (rev rs) of
                   None \<Rightarrow> e | Some r \<Rightarrow> e\<lparr>analysisData := r\<rparr>) ?ps"
    by (rule Cons.IH [OF d])
  also have "\<dots> = map (\<lambda>e. case find (\<lambda>r. analysis_id r = email_id e) (rev (r # rs)) of
                   None \<Rightarrow> e | Some r \<Rightarrow> e\<lparr>analysisData := r\<rparr>) ps"
    by (auto simp: find_append_cases split: option.splits)
  finally show ?case .
qed

lemma fold_markFailed_map:
  "distinct (map email_id ps) \<Longrightarrow>
   fold markFailed batch ps
     = map (\<lambda>e. if email_id e \<in> email_id ` set batch
                 then e\<lparr>analysisData := failedAnalysis (email_id e)\<rparr> else e) ps"
proof (induction batch arbitrary: ps)
  case Nil
  then show ?case by simp
next
  case (Cons f batch)
  let ?ps = "map (\<lambda>e. if email_id e = email_id f
                 then e\<lparr>analysisData := failedAnalysis (email_id f)\<rparr> else e) ps"
  have ids: "map email_id ?ps = map email_id ps"
    by (induction ps) auto
  have d: "distinct (map email_id ?ps)"
    unfolding ids by (rule Cons.prems)
  have "fold markFailed (f # batch) ps = fold markFailed batch ?ps"
    using Cons.prems by (simp add: markFailed_map)
  also have "\<dots> = map (\<lambda>e. if email_id e \<in> email_id ` set batch
                 then e\<lparr>analysisData := failedAnalysis (email_id e)\<rparr> else e) ?ps"
    by (rule Cons.IH [OF d])
  also have "\<dots> = map (\<lambda>e. if email_id e \<in> email_id ` set (f # batch)
                 then e\<lparr>analysisData := failedAnalysis (email_id e)\<rparr> else e) ps"
    by auto
  finally show ?case .
qed

lemma ceil5_step:
  "i < n \<Longrightarrow> (n - i + 4) div 5 = Suc ((n - (i + 5) + 4) div 5)" for i n :: nat
proof (cases "n - i \<le> 5")
  case True
  assume "i < n"
  with True have "5 * 1 \<le> n - i + 4" and "n - i + 4 < 5 * Suc 1" by simp_all
  then have "(n - i + 4) div 5 = 1" by (rule div_nat_eqI)
  moreover from True have "n - (i + 5) = 0" by simp
  ultimately show ?thesis by simp
next
  case False
  then have "n - i + 4 = (n - (i + 5) + 4) + 5" by simp
  then show ?thesis by (simp only: div_add_self2)
qed

lemma scoreRecentEmails_empty:
  "aiSession st = Some ai \<Longrightarrow> fetchMessages st net (RecentUnread (t div 1000)) 7 = [] \<Longrightarrow>
   scoreRecentEmails st net t profile sink = Inr \<lparr>processedEmails = [], sinkCalls = [[]], prompts = []\<rparr>"
  by (simp add: scoreRecentEmails_def)

lemma ceil5_bounds: "n \<le> 5 * ((n + 4) div 5) \<and> 5 * ((n + 4) div 5) < n + 5" for n :: nat
proof -
  have "(n + 4) mod 5 < 5" by simp
  moreover have "5 * ((n + 4) div 5) + (n + 4) mod 5 = n + 4" by simp
  ultimately show ?thesis by linarith
qed

lemma mergedEmail_funs:
  "mergedEmail CallFailed batch
     = (\<lambda>e. if email_id e \<in> email_id ` set batch
            then e\<lparr>analysisData := failedAnalysis (email_id e)\<rparr> else e)"
  "mergedEmail ParsedOther batch = (\<lambda>e. e)"
  "mergedEmail (ParsedArray rs) batch
     = (\<lambda>e. case find (\<lambda>r. analysis_id r = email_id e) (rev rs) of
              None \<Rightarrow> e
            | Some r \<Rightarrow> e\<lparr>analysisData := r\<rparr>)"
  by (rule ext, simp add: mergedEmail_def)+

lemma mergeOutcome_map:
  "distinct (map email_id ps) \<Longrightarrow> mergeOutcome outcome batch ps = map (mergedEmail outcome batch) ps"
  by (cases outcome)
     (simp_all add: mergeOutcome_def mergedEmail_funs fold_markFailed_map
        fold_applyAnalysisResult_map)

lemma mergedEmail_id [simp]: "email_id (mergedEmail outcome batch e) = email_id e"
  by (simp add: mergedEmail_def split: aiOutcome.splits option.splits)

lemma resort_after_update:
  fixes k :: "'a \<Rightarrow> 'b::linorder"
  assumes "sorted_wrt (\<lambda>a b. k (g a) = k (g b) \<longrightarrow> k a \<le> k b) F"
  shows "sort_key k (map g (sort_key k F)) = sort_key k (map g F)"
proof (rule properties_for_sort_key)
  show "mset (sort_key k (map g F)) = mset (map g (sort_key k F))" by simp
  show "sorted (map k (sort_key k (map g F)))" by simp
  fix x
  let ?P = "\<lambda>e. k x = k (g e)"
  have "sorted_wrt (\<lambda>a b. k (g a) = k (g b) \<longrightarrow> k a \<le> k b) (filter ?P F)"
    using assms by (rule sorted_wrt_filter)
  then have "sorted_wrt (\<lambda>a b. k a \<le> k b) (filter ?P F)"
    by (rule sorted_wrt_mono_rel [rotated]) auto
  then have s: "sorted (map k (filter ?P F))"
    by (simp add: sorted_map)
  have "filter (\<lambda>y. k x = k y) (map g (sort_key k F)) = map g (filter ?P (sort_key k F))"
    by (simp add: filter_map comp_def)
  also have "\<dots> = map g (sort_key k (filter ?P F))"
    by (simp add: filter_sort)
  also have "\<dots> = map g (filter ?P F)"
    using s by (simp add: sort_key_id_if_sorted)
  also have "\<dots> = filter (\<lambda>y. k x = k y) (map g F)"
    by (simp add: filter_map comp_def)
  also have "\<dots> = filter (\<lambda>y. k y = k x) (map g F)"
    by (rule filter_cong) auto
  also have "\<dots> = filter (\<lambda>y. k y = k x) (sort_key k (map g F))"
    by (simp add: sort_key_stable)
  also have "\<dots> = filter (\<lambda>y. k x = k y) (sort_key k (map g F))"
    by (rule filter_cong) auto
  finally show "filter (\<lambda>y. k x = k y) (sort_key k (map g F))
      = filter (\<lambda>y. k x = k y) (map g (sort_key k F))"
    by simp
qed

lemma renderEmails_mset: "mset (renderEmails emails) = mset emails"
  by (simp add: renderEmails_sort_key)

lemma renderEmails_descending:
  "sorted_wrt (\<lambda>a b. score (analysisData b) \<le> score (analysisData a)) (renderEmails emails)"
proof -
  have "sorted (map (\<lambda>e. - score (analysisData e)) (renderEmails emails))"
    by (simp add: renderEmails_sort_key)
  then show ?thesis
    by (simp add: sorted_map)
qed

lemma renderEmails_stable:
  "filter (\<lambda>e. score (analysisData e) = n) (renderEmails emails)
     = filter (\<lambda>e. score (analysisData e) = n) emails"
proof -
  have "filter (\<lambda>e. - score (analysisData e) = - n) (renderEmails emails)
     = filter (\<lambda>e. - score (analysisData e) = - n) emails"
    unfolding renderEmails_sort_key by (rule sort_key_stable)
  then show ?thesis by simp
qed

lemma renderEmails_idem: "renderEmails (renderEmails emails) = renderEmails emails"
  by (simp add: renderEmails_sort_key sort_key_id_if_sorted)

lemma renderEmails_fixed_iff:
  "renderEmails emails = emails
     \<longleftrightarrow> sorted_wrt (\<lambda>a b. score (analysisData b) \<le> score (analysisData a)) emails"
proof
  assume "renderEmails emails = emails"
  then show "sorted_wrt (\<lambda>a b. score (analysisData b) \<le> score (analysisData a)) emails"
    using renderEmails_descending [of emails] by simp
next
  assume "sorted_wrt (\<lambda>a b. score (analysisData b) \<le> score (analysisData a)) emails"
  then have "sorted (map (\<lambda>e. - score (analysisData e)) emails)"
    by (simp add: sorted_map)
  then show "renderEmails emails = emails"
    by (simp add: renderEmails_sort_key sort_key_id_if_sorted)
qed


lemma applyAnalysisResult_length [simp]: "length (applyAnalysisResult r ps) = length ps"
  by (simp add: applyAnalysisResult_def split: option.splits)



lemma in_slice_iff:
  assumes "distinct (map f W)" and "p < length W"
  shows "f (W ! p) \<in> f ` set (slice i (i + m) W) \<longleftrightarrow> i \<le> p \<and> p < i + m"
proof
  assume "f (W ! p) \<in> f ` set (slice i (i + m) W)"
  then obtain x where x: "x \<in> set (take m (drop i W))" "f x = f (W ! p)"
    by (auto simp: slice_def)
  then obtain j where j: "j < length (take m (drop i W))" "x = take m (drop i W) ! j"
    by (auto simp: in_set_conv_nth)
  then have b: "j < m" "i + j < length W" and "x = W ! (i + j)"
    by auto
  with x have "f (W ! (i + j)) = f (W ! p)"
    by simp
  with nth_eq_iff_index_eq [OF assms(1), of "i + j" p] b assms(2) have "i + j = p"
    by simp
  with b show "i \<le> p \<and> p < i + m" by auto
next
  assume a: "i \<le> p \<and> p < i + m"
  with assms(2) have "p - i < length (take m (drop i W))" by auto
  moreover from a assms(2) have "take m (drop i W) ! (p - i) = W ! p" by auto
  ultimately have "W ! p \<in> set (take m (drop i W))" by (metis nth_mem)
  then show "f (W ! p) \<in> f ` set (slice i (i + m) W)" by (auto simp: slice_def)
qed

lemma mergedEmail_outside:
  assumes "email_id e \<notin> email_id ` set batch"
    and "\<And>rs. outcome = ParsedArray rs \<Longrightarrow> \<forall>r\<in>set rs. analysis_id r \<in> email_id ` set batch"
  shows "mergedEmail outcome batch e = e"
proof (cases outcome)
  case (ParsedArray rs)
  from assms(2) [OF ParsedArray] assms(1) have "\<forall>r\<in>set rs. analysis_id r \<noteq> email_id e"
    by metis
  then have "find (\<lambda>r. analysis_id r = email_id e) (rev rs) = None"
    by (simp add: find_None_iff)
  with ParsedArray show ?thesis by (simp add: mergedEmail_def)
qed (use assms in \<open>simp_all add: mergedEmail_def\<close>)

lemma find_Some_in_set: "find P xs = Some x \<Longrightarrow> x \<in> set xs \<and> P x"
  by (induction xs) (auto split: if_splits)

lemma mergedEmail_score_lower:
  assumes "- 1 \<le> score (analysisData e)"
    and "\<And>rs. outcome = ParsedArray rs \<Longrightarrow> \<forall>r\<in>set rs. - 1 \<le> score r"
  shows "- 1 \<le> score (analysisData (mergedEmail outcome batch e))"
proof (cases outcome)
  case (ParsedArray rs)
  show ?thesis
  proof (cases "find (\<lambda>r. analysis_id r = email_id e) (rev rs)")
    case None
    with ParsedArray assms show ?thesis by (simp add: mergedEmail_def)
  next
    case (Some r)
    then have "r \<in> set rs" by (auto dest: find_Some_in_set)
    with ParsedArray Some assms show ?thesis by (simp add: mergedEmail_def)
  qed
qed (use assms in \<open>simp_all add: mergedEmail_def failedAnalysis_def\<close>)

lemma distinct_ids_renderEmails:
  "distinct (map email_id (renderEmails F)) = distinct (map email_id F)"
  by (rule mset_eq_imp_distinct_iff) (simp add: renderEmails_mset)

lemma scoreLoop_fetch_order:
  assumes d: "distinct (map email_id W)"
    and valid: "\<And>h q rs. promptScores ai h q = ParsedArray rs \<Longrightarrow>
                  \<forall>r\<in>set rs. analysis_id r \<in> fst ` set (snd q) \<and> - 1 \<le> score r"
    and "map email_id F = map email_id W"
    and "processedEmails s = renderEmails F"
    and "\<forall>q. i \<le> q \<and> q < length W \<longrightarrow> score (analysisData (F ! q)) = - 1"
    and "\<forall>e\<in>set F. - 1 \<le> score (analysisData e)"
    and "\<forall>c\<in>set (sinkCalls s). \<exists>G. map email_id G = map email_id W \<and> renderEmails c = renderEmails G"
  shows "(\<exists>G. map email_id G = map email_id W \<and>
            processedEmails (scoreLoop ai p renderEmails W i s) = renderEmails G) \<and>
         (\<forall>c\<in>set (sinkCalls (scoreLoop ai p renderEmails W i s)).
            \<exists>G. map email_id G = map email_id W \<and> renderEmails c = renderEmails G)"
  using assms(3-7)
proof (induction "length W - i" arbitrary: i s F rule: less_induct)
  case less
  note ids = less.prems(1) and ps = less.prems(2) and pend = less.prems(3)
    and low = less.prems(4) and calls = less.prems(5)
  show ?case
  proof (cases "i < length W")
    case False
    then have "scoreLoop ai p renderEmails W i s = s"
      by (subst scoreLoop.simps) simp
    with ids ps calls show ?thesis by auto
  next
    case True
    define batch where "batch = slice i (i + BATCH_SIZE) W"
    define prompt where "prompt = (p, map toEmailToScore batch)"
    define outcome where "outcome = promptScores ai (prompts s) prompt"
    define g where "g = mergedEmail outcome batch"
    define merged where "merged = mergeOutcome outcome batch (processedEmails s)"
    define s' where "s' = \<lparr>processedEmails = renderEmails merged,
      sinkCalls = sinkCalls s @ [merged], prompts = prompts s @ [prompt]\<rparr>"
    have step: "scoreLoop ai p renderEmails W i s = scoreLoop ai p renderEmails W (i + BATCH_SIZE) s'"
      using True
      by (subst scoreLoop.simps)
         (simp add: Let_def batch_def prompt_def outcome_def merged_def s'_def)
    have len: "length F = length W"
      using ids by (rule map_eq_imp_length_eq)
    have ids_prompt: "fst ` set (snd prompt) = email_id ` set batch"
      by (simp add: prompt_def toEmailToScore_def image_image)
    have v1: "\<forall>r\<in>set rs. analysis_id r \<in> email_id ` set batch"
      and v2: "\<forall>r\<in>set rs. - 1 \<le> score r" if "outcome = ParsedArray rs" for rs
      using valid [of "prompts s" prompt rs] that ids_prompt by (simp_all add: outcome_def)
    have dF: "distinct (map email_id (renderEmails F))"
      using d ids by (simp add: distinct_ids_renderEmails)
    have m: "merged = map g (renderEmails F)"
      unfolding merged_def g_def ps using dF by (rule mergeOutcome_map)
    have outside: "g (F ! q) = F ! q" if "q < length W" "\<not> (i \<le> q \<and> q < i + BATCH_SIZE)" for q
    proof -
      have "map email_id F ! q = map email_id W ! q"
        using ids by simp
      then have "email_id (F ! q) = email_id (W ! q)"
        using that(1) len by simp
      moreover have "email_id (W ! q) \<notin> email_id ` set batch"
        using in_slice_iff [OF d that(1), of i BATCH_SIZE] that(2) by (simp add: batch_def)
      ultimately have "email_id (F ! q) \<notin> email_id ` set batch"
        by simp
      then show ?thesis
        unfolding g_def using v1 by (rule mergedEmail_outside)
    qed
    have R: "sorted_wrt (\<lambda>a b. - score (analysisData (g a)) = - score (analysisData (g b))
                \<longrightarrow> - score (analysisData a) \<le> - score (analysisData b)) F"
      unfolding sorted_wrt_iff_nth_less
    proof (intro allI impI)
      fix a b
      assume ab: "a < b" "b < length F"
        and eq: "- score (analysisData (g (F ! a))) = - score (analysisData (g (F ! b)))"
      show "- score (analysisData (F ! a)) \<le> - score (analysisData (F ! b))"
      proof (cases "i \<le> b")
        case True
        with ab len pend have "score (analysisData (F ! b)) = - 1" by simp
        moreover from ab have "F ! a \<in> set F" by simp
        with low have "- 1 \<le> score (analysisData (F ! a))" by blast
        ultimately show ?thesis by simp
      next
        case False
        with ab len have "g (F ! a) = F ! a" and "g (F ! b) = F ! b"
          by (simp_all add: outside)
        with eq show ?thesis by simp
      qed
    qed
    have resort: "renderEmails merged = renderEmails (map g F)"
      unfolding m renderEmails_sort_key by (rule resort_after_update [OF R])
    have ids': "map email_id (map g F) = map email_id W"
      using ids by (simp add: g_def comp_def)
    have ps': "processedEmails s' = renderEmails (map g F)"
      by (simp add: s'_def resort)
    have pend': "\<forall>q. i + BATCH_SIZE \<le> q \<and> q < length W \<longrightarrow> score (analysisData (map g F ! q)) = - 1"
      using outside pend len by auto
    have low': "\<forall>e\<in>set (map g F). - 1 \<le> score (analysisData e)"
      using low v2 by (auto simp: g_def intro: mergedEmail_score_lower)
    have calls': "\<forall>c\<in>set (sinkCalls s'). \<exists>G. map email_id G = map email_id W \<and> renderEmails c = renderEmails G"
    proof -
      have "\<exists>G. map email_id G = map email_id W \<and> renderEmails merged = renderEmails G"
        using resort ids' by blast
      with calls show ?thesis by (simp add: s'_def)
    qed
    have "length W - (i + BATCH_SIZE) < length W - i"
      using True by (simp add: BATCH_SIZE_def)
    from less.hyps [OF this ids' ps' pend' low' calls'] show ?thesis
      unfolding step .
  qed
qed

lemma mergedEmail_quiet:
  assumes "\<And>rs. outcome = ParsedArray rs \<Longrightarrow> email_id e \<notin> analysis_id ` set rs"
    and "outcome = CallFailed \<Longrightarrow> email_id e \<notin> email_id ` set batch"
  shows "mergedEmail outcome batch e = e"
proof (cases outcome)
  case (ParsedArray rs)
  from assms(1) [OF ParsedArray] have "\<forall>r\<in>set rs. analysis_id r \<noteq> email_id e"
    by (metis imageI)
  then have "find (\<lambda>r. analysis_id r = email_id e) (rev rs) = None"
    by (simp add: find_None_iff)
  with ParsedArray show ?thesis by (simp add: mergedEmail_def)
qed (use assms in \<open>simp_all add: mergedEmail_def\<close>)

lemma scoreLoop_processed_last:
  assumes "sinkCalls s \<noteq> []" and "processedEmails s = sink (last (sinkCalls s))"
  shows "sinkCalls (scoreLoop ai p sink W i s) \<noteq> [] \<and>
         processedEmails (scoreLoop ai p sink W i s) = sink (last (sinkCalls (scoreLoop ai p sink W i s)))"
  using assms
proof (induction ai p sink W i s rule: scoreLoop.induct)
  case (1 ai p sink W i s)
  show ?case
  proof (cases "i < length W")
    case True
    note IH = 1(1) [OF True refl refl refl]
    show ?thesis
      by (subst (1 2 3) scoreLoop.simps) (simp only: True if_True Let_def, rule IH, simp_all)
  next
    case False
    with 1(2,3) show ?thesis by (subst (1 2 3) scoreLoop.simps) simp
  qed
qed

lemma find_filter_implied:
  "(\<And>x. Q x \<Longrightarrow> P x) \<Longrightarrow> find Q (filter P xs) = find Q xs"
  by (induction xs) auto

lemma fetch7:
  "fetchMessages (signedIn ai) (mailbox [''a'', ''b'', ''c'', ''d'', ''e'', ''f'', ''g'']) q 7
     = map msg [''a'', ''b'', ''c'', ''d'', ''e'', ''f'', ''g'']"
  by (simp add: fetchMessages_def fetchMessages_try_def signedIn_def mailbox_def ok_def
      fetchDetails.simps slice_def concurrency_def)

lemma seeded_ids:
  "map email_id (map (\<lambda>e. withAnalysis e (placeholderAnalysis (email_id e))) W) = map email_id W"
  by (simp add: withAnalysis_def comp_def)

lemma scoreRecentEmails_fetch_order:
  assumes ai: "aiSession st = Some ai"
    and d: "distinct (map email_id (fetchMessages st net (RecentUnread (t div 1000)) 7))"
    and valid: "\<And>h q rs. promptScores ai h q = ParsedArray rs \<Longrightarrow>
                  \<forall>r\<in>set rs. analysis_id r \<in> fst ` set (snd q) \<and> - 1 \<le> score r"
  shows "\<exists>s. scoreRecentEmails st net t p renderEmails = Inr s \<and>
           (\<exists>G. map email_id G = map email_id (fetchMessages st net (RecentUnread (t div 1000)) 7) \<and>
                processedEmails s = renderEmails G) \<and>
           (\<forall>c\<in>set (sinkCalls s).
              \<exists>G. map email_id G = map email_id (fetchMessages st net (RecentUnread (t div 1000)) 7) \<and>
                  renderEmails c = renderEmails G)"
proof -
  define W where "W = fetchMessages st net (RecentUnread (t div 1000)) 7"
  show ?thesis
  proof (cases "W = []")
    case True
    then have "scoreRecentEmails st net t p renderEmails
        = Inr \<lparr>processedEmails = [], sinkCalls = [[]], prompts = []\<rparr>"
      using ai by (simp add: scoreRecentEmails_empty W_def)
    moreover have "renderEmails [] = []" by (simp add: renderEmails_def)
    ultimately show ?thesis
      using True by (simp add: W_def [symmetric])
  next
    case False
    define seeded where "seeded = map (\<lambda>e. withAnalysis e (placeholderAnalysis (email_id e))) W"
    define s0 where "s0 = \<lparr>processedEmails = renderEmails seeded, sinkCalls = [seeded], prompts = []\<rparr>"
    have run: "scoreRecentEmails st net t p renderEmails = Inr (scoreLoop ai p renderEmails W 0 s0)"
      using ai False by (simp add: scoreRecentEmails_def W_def [symmetric] Let_def seeded_def s0_def)
    have ids: "map email_id seeded = map email_id W"
      unfolding seeded_def by (rule seeded_ids)
    have ps: "processedEmails s0 = renderEmails seeded"
      by (simp add: s0_def)
    have pend: "\<forall>q. 0 \<le> q \<and> q < length W \<longrightarrow> score (analysisData (seeded ! q)) = - 1"
      by (simp add: seeded_def withAnalysis_def placeholderAnalysis_def)
    have low: "\<forall>e\<in>set seeded. - 1 \<le> score (analysisData e)"
      by (auto simp: seeded_def withAnalysis_def placeholderAnalysis_def)
    have calls: "\<forall>c\<in>set (sinkCalls s0). \<exists>G. map email_id G = map email_id W \<and> renderEmails c = renderEmails G"
      using ids by (auto simp: s0_def)
    from scoreLoop_fetch_order [of W ai seeded s0 0 p, OF d [folded W_def] valid ids ps pend low calls] run
    show ?thesis
      by (simp add: W_def [symmetric])
  qed
qed

lemma mergeOutcome_drop_unmatched:
  assumes "distinct (map email_id ps)"
  shows "mergeOutcome (ParsedArray rs) batch ps
           = mergeOutcome (ParsedArray (filter (\<lambda>r. analysis_id r \<in> email_id ` set ps) rs)) batch ps"
proof -
  have "find (\<lambda>r. analysis_id r = email_id e) (rev (filter (\<lambda>r. analysis_id r \<in> email_id ` set ps) rs))
          = find (\<lambda>r. analysis_id r = email_id e) (rev rs)" if "e \<in> set ps" for e
    unfolding rev_filter using that by (intro find_filter_implied) auto
  then have "map (mergedEmail (ParsedArray rs) batch) ps
      = map (mergedEmail (ParsedArray (filter (\<lambda>r. analysis_id r \<in> email_id ` set ps) rs)) batch) ps"
    by (intro map_cong) (simp_all add: mergedEmail_def)
  with assms show ?thesis by (simp add: mergeOutcome_map)
qed

lemma fetch2:
  "fetchMessages (signedIn ai) (mailbox [''a'', ''b'']) q 7 = map msg [''a'', ''b'']"
  by (simp add: fetchMessages_def fetchMessages_try_def signedIn_def mailbox_def ok_def
      fetchDetails.simps slice_def concurrency_def)

lemma fetch3:
  "fetchMessages (signedIn ai) (mailbox [''A'', ''B'', ''C'']) q 7 = map msg [''A'', ''B'', ''C'']"
  by (simp add: fetchMessages_def fetchMessages_try_def signedIn_def mailbox_def ok_def
      fetchDetails.simps slice_def concurrency_def)

lemma scanTiered:
  "map (\<lambda>e. (email_id e, score (analysisData e)))
     (processedEmails (projr (scoreRecentEmails (signedIn (session tiered))
        (mailbox [''a'', ''b'', ''c'', ''d'', ''e'', ''f'', ''g'']) 0 noProfile renderEmails)))
     = [(''b'', 90), (''f'', 90), (''a'', 50), (''c'', 50), (''d'', 50), (''e'', 50), (''g'', 50)]"
  by code_simp

text \<open>
  The calls of a scan one by one: what each prompt carries and what each call of
  the sink is handed; then, for a scan rendered by \<^verbatim>\<open>renderEmails\<close> over a window
  whose ids are pairwise different, what a message holds from one call of the
  sink to the next.
\<close>

lemma scoreLoop_trace:
  "\<exists>cs ps. sinkCalls (scoreLoop ai p sink W i s) = sinkCalls s @ cs \<and>
           prompts (scoreLoop ai p sink W i s) = prompts s @ ps \<and>
           length cs = (length W - i + 4) div 5 \<and>
           length ps = (length W - i + 4) div 5 \<and>
           (\<forall>j<length ps. ps ! j = (p, map toEmailToScore (slice (i + 5 * j) (i + 5 * j + 5) W))) \<and>
           (\<forall>j<length cs. cs ! j
               = mergeOutcome (promptScores ai (prompts s @ take j ps) (ps ! j))
                   (slice (i + 5 * j) (i + 5 * j + 5) W)
                   (if j = 0 then processedEmails s else sink (cs ! (j - 1)))) \<and>
           processedEmails (scoreLoop ai p sink W i s)
             = (if cs = [] then processedEmails s else sink (last cs))"
proof (induction "length W - i" arbitrary: i s rule: less_induct)
  case less
  show ?case
  proof (cases "i < length W")
    case False
    then have "scoreLoop ai p sink W i s = s"
      by (subst scoreLoop.simps) simp
    moreover from False have "(length W - i + 4) div 5 = 0"
      by simp
    ultimately show ?thesis
      by simp
  next
    case True
    define batch where "batch = slice i (i + 5) W"
    define p0 where "p0 = (p, map toEmailToScore batch)"
    define c0 where "c0 = mergeOutcome (promptScores ai (prompts s) p0) batch (processedEmails s)"
    define s1 where "s1 = \<lparr>processedEmails = sink c0,
      sinkCalls = sinkCalls s @ [c0], prompts = prompts s @ [p0]\<rparr>"
    have step: "scoreLoop ai p sink W i s = scoreLoop ai p sink W (i + 5) s1"
      using True
      by (subst scoreLoop.simps)
         (simp add: Let_def BATCH_SIZE_def batch_def p0_def c0_def s1_def)
    have m: "(length W - i + 4) div 5 = Suc ((length W - (i + 5) + 4) div 5)"
      using True by (rule ceil5_step)
    have "length W - (i + 5) < length W - i"
      using True by simp
    from less.hyps [OF this, of s1]
    obtain cs ps where
      1: "sinkCalls (scoreLoop ai p sink W (i + 5) s1) = sinkCalls s1 @ cs"
      and 2: "prompts (scoreLoop ai p sink W (i + 5) s1) = prompts s1 @ ps"
      and 3: "length cs = (length W - (i + 5) + 4) div 5"
      and 4: "length ps = (length W - (i + 5) + 4) div 5"
      and 5: "\<forall>j<length ps. ps ! j
                = (p, map toEmailToScore (slice (i + 5 + 5 * j) (i + 5 + 5 * j + 5) W))"
      and 6: "\<forall>j<length cs. cs ! j
               = mergeOutcome (promptScores ai (prompts s1 @ take j ps) (ps ! j))
                   (slice (i + 5 + 5 * j) (i + 5 + 5 * j + 5) W)
                   (if j = 0 then processedEmails s1 else sink (cs ! (j - 1)))"
      and 7: "processedEmails (scoreLoop ai p sink W (i + 5) s1)
             = (if cs = [] then processedEmails s1 else sink (last cs))"
      by blast
    have a: "sinkCalls (scoreLoop ai p sink W i s) = sinkCalls s @ (c0 # cs)"
      unfolding step 1 by (simp add: s1_def)
    have b: "prompts (scoreLoop ai p sink W i s) = prompts s @ (p0 # ps)"
      unfolding step 2 by (simp add: s1_def)
    have c: "length (c0 # cs) = (length W - i + 4) div 5"
      and d: "length (p0 # ps) = (length W - i + 4) div 5"
      by (simp_all only: length_Cons 3 4 m)
    have ar: "i + 5 * Suc j = i + 5 + 5 * j" for j
      by simp
    have e: "\<forall>j<length (p0 # ps). (p0 # ps) ! j
                = (p, map toEmailToScore (slice (i + 5 * j) (i + 5 * j + 5) W))"
      unfolding length_Cons All_less_Suc2 ar using 5
      by (simp add: p0_def batch_def)
    have f: "\<forall>j<length (c0 # cs). (c0 # cs) ! j
               = mergeOutcome (promptScores ai (prompts s @ take j (p0 # ps)) ((p0 # ps) ! j))
                   (slice (i + 5 * j) (i + 5 * j + 5) W)
                   (if j = 0 then processedEmails s else sink ((c0 # cs) ! (j - 1)))"
      unfolding length_Cons All_less_Suc2 ar
    proof (intro conjI allI impI)
      show "(c0 # cs) ! 0
          = mergeOutcome (promptScores ai (prompts s @ take 0 (p0 # ps)) ((p0 # ps) ! 0))
              (slice (i + 5 * 0) (i + 5 * 0 + 5) W)
              (if (0::nat) = 0 then processedEmails s else sink ((c0 # cs) ! (0 - 1)))"
        by (simp add: c0_def batch_def)
    next
      fix j assume j: "j < length cs"
      from 6 j have "cs ! j
               = mergeOutcome (promptScores ai (prompts s1 @ take j ps) (ps ! j))
                   (slice (i + 5 + 5 * j) (i + 5 + 5 * j + 5) W)
                   (if j = 0 then processedEmails s1 else sink (cs ! (j - 1)))"
        by blast
      moreover have "(if j = 0 then processedEmails s1 else sink (cs ! (j - 1)))
          = sink ((c0 # cs) ! j)"
        by (simp add: s1_def nth_Cons')
      ultimately show "(c0 # cs) ! Suc j
          = mergeOutcome (promptScores ai (prompts s @ take (Suc j) (p0 # ps)) ((p0 # ps) ! Suc j))
              (slice (i + 5 + 5 * j) (i + 5 + 5 * j + 5) W)
              (if Suc j = 0 then processedEmails s else sink ((c0 # cs) ! (Suc j - 1)))"
        by (simp add: s1_def)
    qed
    have g: "processedEmails (scoreLoop ai p sink W i s)
             = (if c0 # cs = [] then processedEmails s else sink (last (c0 # cs)))"
      unfolding step 7 by (simp add: s1_def)
    from a b c d e f g show ?thesis
      by blast
  qed
qed

lemma scan_trace:
  assumes run: "scoreRecentEmails st net t p sink = Inr s"
    and ai: "aiSession st = Some ai"
    and ne: "fetchMessages st net (RecentUnread (t div 1000)) 7 \<noteq> []"
  shows "length (sinkCalls s) = Suc ((length (fetchMessages st net (RecentUnread (t div 1000)) 7) + 4) div 5)"
    and "length (prompts s) = (length (fetchMessages st net (RecentUnread (t div 1000)) 7) + 4) div 5"
    and "sinkCalls s ! 0 = map (\<lambda>e. withAnalysis e (placeholderAnalysis (email_id e)))
                             (fetchMessages st net (RecentUnread (t div 1000)) 7)"
    and "\<forall>k<length (prompts s).
           prompts s ! k = (p, map toEmailToScore
                               (slice (5 * k) (5 * k + 5) (fetchMessages st net (RecentUnread (t div 1000)) 7))) \<and>
           sinkCalls s ! Suc k
             = mergeOutcome (promptScores ai (take k (prompts s)) (prompts s ! k))
                 (slice (5 * k) (5 * k + 5) (fetchMessages st net (RecentUnread (t div 1000)) 7))
                 (sink (sinkCalls s ! k))"
    and "processedEmails s = sink (last (sinkCalls s))"
proof -
  define W where "W = fetchMessages st net (RecentUnread (t div 1000)) 7"
  define seeded where "seeded = map (\<lambda>e. withAnalysis e (placeholderAnalysis (email_id e))) W"
  define s0 where "s0 = \<lparr>processedEmails = sink seeded, sinkCalls = [seeded], prompts = []\<rparr>"
  have s: "s = scoreLoop ai p sink W 0 s0"
    using run ai ne by (simp add: scoreRecentEmails_def W_def [symmetric] Let_def seeded_def s0_def)
  from scoreLoop_trace [of ai p sink W 0 s0]
  obtain cs ps where
    1: "sinkCalls s = sinkCalls s0 @ cs"
    and 2: "prompts s = prompts s0 @ ps"
    and 3: "length cs = (length W - 0 + 4) div 5"
    and 4: "length ps = (length W - 0 + 4) div 5"
    and 5: "\<forall>j<length ps. ps ! j = (p, map toEmailToScore (slice (0 + 5 * j) (0 + 5 * j + 5) W))"
    and 6: "\<forall>j<length cs. cs ! j
               = mergeOutcome (promptScores ai (prompts s0 @ take j ps) (ps ! j))
                   (slice (0 + 5 * j) (0 + 5 * j + 5) W)
                   (if j = 0 then processedEmails s0 else sink (cs ! (j - 1)))"
    and 7: "processedEmails s = (if cs = [] then processedEmails s0 else sink (last cs))"
    unfolding s by blast
  have sc: "sinkCalls s = seeded # cs" and pr: "prompts s = ps"
    using 1 2 by (simp_all add: s0_def)
  show "length (sinkCalls s) = Suc ((length (fetchMessages st net (RecentUnread (t div 1000)) 7) + 4) div 5)"
    using 3 by (simp add: sc W_def)
  show "length (prompts s) = (length (fetchMessages st net (RecentUnread (t div 1000)) 7) + 4) div 5"
    using 4 by (simp add: pr W_def)
  show "sinkCalls s ! 0 = map (\<lambda>e. withAnalysis e (placeholderAnalysis (email_id e)))
                             (fetchMessages st net (RecentUnread (t div 1000)) 7)"
    by (simp add: sc seeded_def W_def)
  show "\<forall>k<length (prompts s).
           prompts s ! k = (p, map toEmailToScore
                               (slice (5 * k) (5 * k + 5) (fetchMessages st net (RecentUnread (t div 1000)) 7))) \<and>
           sinkCalls s ! Suc k
             = mergeOutcome (promptScores ai (take k (prompts s)) (prompts s ! k))
                 (slice (5 * k) (5 * k + 5) (fetchMessages st net (RecentUnread (t div 1000)) 7))
                 (sink (sinkCalls s ! k))"
  proof (intro allI impI conjI)
    fix k assume k: "k < length (prompts s)"
    with 5 show "prompts s ! k = (p, map toEmailToScore
                               (slice (5 * k) (5 * k + 5) (fetchMessages st net (RecentUnread (t div 1000)) 7)))"
      by (simp add: pr W_def)
    from k 3 4 have "k < length cs" by (simp add: pr)
    with 6 have "cs ! k = mergeOutcome (promptScores ai (prompts s0 @ take k ps) (ps ! k))
                   (slice (0 + 5 * k) (0 + 5 * k + 5) W)
                   (if k = 0 then processedEmails s0 else sink (cs ! (k - 1)))"
      by blast
    moreover have "(if k = 0 then processedEmails s0 else sink (cs ! (k - 1))) = sink ((seeded # cs) ! k)"
      by (simp add: s0_def nth_Cons')
    ultimately show "sinkCalls s ! Suc k
             = mergeOutcome (promptScores ai (take k (prompts s)) (prompts s ! k))
                 (slice (5 * k) (5 * k + 5) (fetchMessages st net (RecentUnread (t div 1000)) 7))
                 (sink (sinkCalls s ! k))"
      by (simp add: sc pr s0_def W_def)
  qed
  show "processedEmails s = sink (last (sinkCalls s))"
    using 7 by (simp add: sc s0_def)
qed

lemma find_eq_filter:
  "find P xs = (case filter P xs of [] \<Rightarrow> None | y # ys \<Rightarrow> Some y)"
  by (induction xs) auto

lemma filter_key_single:
  "distinct (map key xs) \<Longrightarrow> length (filter (\<lambda>e. key e = x) xs) \<le> 1"
proof (induction xs)
  case Nil
  then show ?case by simp
next
  case (Cons a xs)
  show ?case
  proof (cases "key a = x")
    case True
    with Cons.prems have "x \<notin> key ` set xs" by simp
    then have "\<forall>e\<in>set xs. key e \<noteq> x" by blast
    then have "filter (\<lambda>e. key e = x) xs = []" by (simp add: filter_empty_conv)
    with True show ?thesis by simp
  next
    case False
    with Cons show ?thesis by simp
  qed
qed

lemma find_sort_key_unique:
  assumes "distinct (map key xs)"
  shows "find (\<lambda>e. key e = x) (sort_key f xs) = find (\<lambda>e. key e = x) xs"
proof -
  from filter_key_single [OF assms, of x]
  have "sorted (map f (filter (\<lambda>e. key e = x) xs))"
    by (cases "filter (\<lambda>e. key e = x) xs") (simp_all add: le_Suc_eq)
  then have "sort_key f (filter (\<lambda>e. key e = x) xs) = filter (\<lambda>e. key e = x) xs"
    by (rule sort_key_id_if_sorted)
  then have "filter (\<lambda>e. key e = x) (sort_key f xs) = filter (\<lambda>e. key e = x) xs"
    by (simp add: filter_sort)
  then show ?thesis
    by (simp add: find_eq_filter)
qed

lemma analysisOf_renderEmails:
  "distinct (map email_id c) \<Longrightarrow> analysisOf x (renderEmails c) = analysisOf x c"
  by (simp add: analysisOf_def renderEmails_sort_key find_sort_key_unique)

lemma find_map_key:
  "(\<And>e. key (g e) = key e) \<Longrightarrow>
   find (\<lambda>e. key e = x) (map g xs) = map_option g (find (\<lambda>e. key e = x) xs)"
  by (induction xs) auto

lemma scan_ids:
  assumes run: "scoreRecentEmails st net t p renderEmails = Inr s"
    and ai: "aiSession st = Some ai"
    and d: "distinct (map email_id (fetchMessages st net (RecentUnread (t div 1000)) 7))"
    and ne: "fetchMessages st net (RecentUnread (t div 1000)) 7 \<noteq> []"
  shows "k \<le> length (prompts s) \<Longrightarrow>
         mset (map email_id (sinkCalls s ! k))
           = mset (map email_id (fetchMessages st net (RecentUnread (t div 1000)) 7))"
proof (induction k)
  case 0
  show ?case
    unfolding scan_trace(3) [OF run ai ne] seeded_ids ..
next
  case (Suc k)
  then have k: "k < length (prompts s)" by simp
  let ?W = "fetchMessages st net (RecentUnread (t div 1000)) 7"
  let ?c = "sinkCalls s ! k"
  from Suc have ih: "mset (map email_id ?c) = mset (map email_id ?W)" by simp
  from mset_eq_imp_distinct_iff [OF ih] d have "distinct (map email_id ?c)" by blast
  then have dr: "distinct (map email_id (renderEmails ?c))"
    by (simp add: distinct_ids_renderEmails)
  from scan_trace(4) [OF run ai ne] k
  have "sinkCalls s ! Suc k
          = mergeOutcome (promptScores ai (take k (prompts s)) (prompts s ! k))
              (slice (5 * k) (5 * k + 5) ?W) (renderEmails ?c)"
    by blast
  then have "map email_id (sinkCalls s ! Suc k) = map email_id (renderEmails ?c)"
    using dr by (simp add: mergeOutcome_map comp_def)
  then show ?case
    using ih by (simp add: renderEmails_mset)
qed

lemma scan_distinct:
  assumes run: "scoreRecentEmails st net t p renderEmails = Inr s"
    and ai: "aiSession st = Some ai"
    and d: "distinct (map email_id (fetchMessages st net (RecentUnread (t div 1000)) 7))"
    and ne: "fetchMessages st net (RecentUnread (t div 1000)) 7 \<noteq> []"
    and k: "k \<le> length (prompts s)"
  shows "distinct (map email_id (sinkCalls s ! k))"
    and "email_id ` set (sinkCalls s ! k)
           = email_id ` set (fetchMessages st net (RecentUnread (t div 1000)) 7)"
proof -
  note m = scan_ids [OF run ai d ne k]
  from mset_eq_imp_distinct_iff [OF m] d show "distinct (map email_id (sinkCalls s ! k))"
    by blast
  from mset_eq_setD [OF m] show "email_id ` set (sinkCalls s ! k)
           = email_id ` set (fetchMessages st net (RecentUnread (t div 1000)) 7)"
    by simp
qed

lemma scan_step:
  assumes run: "scoreRecentEmails st net t p renderEmails = Inr s"
    and ai: "aiSession st = Some ai"
    and d: "distinct (map email_id (fetchMessages st net (RecentUnread (t div 1000)) 7))"
    and ne: "fetchMessages st net (RecentUnread (t div 1000)) 7 \<noteq> []"
    and k: "k < length (prompts s)"
  shows "sinkCalls s ! Suc k
           = map (mergedEmail (promptScores ai (take k (prompts s)) (prompts s ! k))
                    (slice (5 * k) (5 * k + 5) (fetchMessages st net (RecentUnread (t div 1000)) 7)))
               (renderEmails (sinkCalls s ! k))"
proof -
  from k have "k \<le> length (prompts s)" by simp
  from scan_distinct(1) [OF run ai d ne this]
  have "distinct (map email_id (renderEmails (sinkCalls s ! k)))"
    by (simp add: distinct_ids_renderEmails)
  moreover from scan_trace(4) [OF run ai ne] k
  have "sinkCalls s ! Suc k
          = mergeOutcome (promptScores ai (take k (prompts s)) (prompts s ! k))
              (slice (5 * k) (5 * k + 5) (fetchMessages st net (RecentUnread (t div 1000)) 7))
              (renderEmails (sinkCalls s ! k))"
    by blast
  ultimately show ?thesis
    by (simp add: mergeOutcome_map)
qed

lemma analysisOf_step:
  assumes run: "scoreRecentEmails st net t p renderEmails = Inr s"
    and ai: "aiSession st = Some ai"
    and d: "distinct (map email_id (fetchMessages st net (RecentUnread (t div 1000)) 7))"
    and ne: "fetchMessages st net (RecentUnread (t div 1000)) 7 \<noteq> []"
    and k: "k < length (prompts s)"
  shows "analysisOf x (sinkCalls s ! Suc k)
           = map_option
               (\<lambda>e. analysisData
                  (mergedEmail (promptScores ai (take k (prompts s)) (prompts s ! k))
                     (slice (5 * k) (5 * k + 5) (fetchMessages st net (RecentUnread (t div 1000)) 7)) e))
               (find (\<lambda>e. email_id e = x) (sinkCalls s ! k))"
proof -
  from k have "k \<le> length (prompts s)" by simp
  from scan_distinct(1) [OF run ai d ne this]
  have dk: "distinct (map email_id (sinkCalls s ! k))" .
  have "find (\<lambda>e. email_id e = x) (renderEmails (sinkCalls s ! k))
          = find (\<lambda>e. email_id e = x) (sinkCalls s ! k)"
    using dk by (simp add: renderEmails_sort_key find_sort_key_unique)
  then show ?thesis
    unfolding scan_step [OF run ai d ne k] analysisOf_def
    by (simp add: find_map_key option.map_comp comp_def)
qed

lemma find_key_Some: "find (\<lambda>e. key e = x) xs = Some e \<Longrightarrow> key e = x \<and> e \<in> set xs"
  by (induction xs) (auto split: if_splits)

lemma analysisOf_step_untouched:
  assumes run: "scoreRecentEmails st net t p renderEmails = Inr s"
    and ai: "aiSession st = Some ai"
    and d: "distinct (map email_id (fetchMessages st net (RecentUnread (t div 1000)) 7))"
    and ne: "fetchMessages st net (RecentUnread (t div 1000)) 7 \<noteq> []"
    and k: "k < length (prompts s)"
    and arr: "\<And>rs. promptScores ai (take k (prompts s)) (prompts s ! k) = ParsedArray rs
                 \<Longrightarrow> x \<notin> analysis_id ` set rs"
    and fail: "promptScores ai (take k (prompts s)) (prompts s ! k) = CallFailed
                 \<Longrightarrow> x \<notin> email_id ` set (slice (5 * k) (5 * k + 5)
                                            (fetchMessages st net (RecentUnread (t div 1000)) 7))"
  shows "analysisOf x (sinkCalls s ! Suc k) = analysisOf x (sinkCalls s ! k)"
proof (cases "find (\<lambda>e. email_id e = x) (sinkCalls s ! k)")
  case None
  then show ?thesis
    unfolding analysisOf_step [OF run ai d ne k] by (simp add: analysisOf_def)
next
  case (Some e)
  then have "email_id e = x" by (auto dest: find_key_Some)
  with arr fail
  have "mergedEmail (promptScores ai (take k (prompts s)) (prompts s ! k))
          (slice (5 * k) (5 * k + 5) (fetchMessages st net (RecentUnread (t div 1000)) 7)) e = e"
    by (intro mergedEmail_quiet) simp_all
  with Some show ?thesis
    unfolding analysisOf_step [OF run ai d ne k] by (simp add: analysisOf_def)
qed

lemma slice_subset: "set (slice i j W) \<subseteq> set W"
  unfolding slice_def by (meson set_take_subset set_drop_subset subset_trans)

lemma slice_disjoint:
  assumes d: "distinct (map f W)"
    and a: "x \<in> f ` set (slice (5 * k) (5 * k + 5) W)"
    and b: "x \<in> f ` set (slice (5 * k') (5 * k' + 5) W)"
  shows "k = k'"
proof -
  from a obtain w where w: "w \<in> set (slice (5 * k) (5 * k + 5) W)" "x = f w"
    by blast
  with slice_subset [of "5 * k" "5 * k + 5" W] have "w \<in> set W" by blast
  then obtain q where q: "q < length W" "W ! q = w"
    by (auto simp: in_set_conv_nth)
  from a b w q have "f (W ! q) \<in> f ` set (slice (5 * k) (5 * k + 5) W)"
    and "f (W ! q) \<in> f ` set (slice (5 * k') (5 * k' + 5) W)"
    by simp_all
  with in_slice_iff [OF d q(1), of "5 * k" 5] in_slice_iff [OF d q(1), of "5 * k'" 5]
  have "5 * k \<le> q \<and> q < 5 * k + 5" and "5 * k' \<le> q \<and> q < 5 * k' + 5"
    by blast+
  then show ?thesis by linarith
qed

lemma scan_returns:
  assumes "aiSession st = Some ai"
  shows "\<exists>s. scoreRecentEmails st net t p sink = Inr s"
  using assms by (simp add: scoreRecentEmails_def Let_def)

lemma scan_last:
  assumes run: "scoreRecentEmails st net t p sink = Inr s"
    and ai: "aiSession st = Some ai"
    and ne: "fetchMessages st net (RecentUnread (t div 1000)) 7 \<noteq> []"
  shows "processedEmails s = sink (sinkCalls s ! length (prompts s))"
proof -
  note tr = scan_trace [OF run ai ne]
  from tr(1,2) have l: "length (sinkCalls s) = Suc (length (prompts s))" by simp
  then have "sinkCalls s \<noteq> []" by auto
  then have "last (sinkCalls s) = sinkCalls s ! (length (sinkCalls s) - 1)"
    by (rule last_conv_nth)
  with l tr(5) show ?thesis by simp
qed

lemma analysisOf_seeded:
  "x \<in> email_id ` set W \<Longrightarrow>
   analysisOf x (map (\<lambda>e. withAnalysis e (placeholderAnalysis (email_id e))) W)
     = Some (placeholderAnalysis x)"
  by (induction W) (auto simp: analysisOf_def withAnalysis_def)

lemma analysisOf_persist:
  assumes run: "scoreRecentEmails st net t p renderEmails = Inr s"
    and ai: "aiSession st = Some ai"
    and d: "distinct (map email_id (fetchMessages st net (RecentUnread (t div 1000)) 7))"
    and ne: "fetchMessages st net (RecentUnread (t div 1000)) 7 \<noteq> []"
    and j: "j \<le> length (prompts s)"
    and quiet: "\<And>m. j \<le> m \<Longrightarrow> m < length (prompts s) \<Longrightarrow>
        (\<forall>rs. promptScores ai (take m (prompts s)) (prompts s ! m) = ParsedArray rs
                \<longrightarrow> x \<notin> analysis_id ` set rs) \<and>
        (promptScores ai (take m (prompts s)) (prompts s ! m) = CallFailed
           \<longrightarrow> x \<notin> email_id ` set (slice (5 * m) (5 * m + 5)
                                     (fetchMessages st net (RecentUnread (t div 1000)) 7)))"
  shows "analysisOf x (processedEmails s) = analysisOf x (sinkCalls s ! j)"
proof -
  have step: "analysisOf x (sinkCalls s ! m) = analysisOf x (sinkCalls s ! j)"
    if "j \<le> m" and "m \<le> length (prompts s)" for m
    using that
  proof (induction m rule: dec_induct)
    case base
    show ?case ..
  next
    case (step n)
    then have n: "n < length (prompts s)" by simp
    from quiet [OF step.hyps(1) n]
    have "analysisOf x (sinkCalls s ! Suc n) = analysisOf x (sinkCalls s ! n)"
      by (intro analysisOf_step_untouched [OF run ai d ne n]) blast+
    with step.IH n show ?case by simp
  qed
  have "distinct (map email_id (sinkCalls s ! length (prompts s)))"
    by (rule scan_distinct(1) [OF run ai d ne]) simp
  then have "analysisOf x (renderEmails (sinkCalls s ! length (prompts s)))
               = analysisOf x (sinkCalls s ! length (prompts s))"
    by (rule analysisOf_renderEmails)
  with step [OF j] show ?thesis
    unfolding scan_last [OF run ai ne] by simp
qed

lemma promiseAll_Rejected: "promiseAll xs = Rejected \<longleftrightarrow> Rejected \<in> set xs"
  by (induction xs rule: promiseAll.induct) (auto split: settled.splits)

lemma fetchDetails_fails:
  "isl (fetchDetails net token messages i details)
     \<longleftrightarrow> (\<exists>j. i \<le> j \<and> j < length messages \<and> getMessage net token (messages ! j) = Rejected)"
proof (induction net token messages i details rule: fetchDetails.induct)
  case (1 net token messages i details)
  show ?case
  proof (cases "i < length messages")
    case False
    then show ?thesis
      by (subst fetchDetails.simps) auto
  next
    case True
    show ?thesis
    proof (cases "promiseAll (map (getMessage net token) (slice i (i + concurrency) messages))")
      case Rejected
      then have "Rejected \<in> getMessage net token ` set (take 8 (drop i messages))"
        by (simp add: promiseAll_Rejected slice_def concurrency_def)
      then obtain m where m: "m \<in> set (take 8 (drop i messages))" "getMessage net token m = Rejected"
        by force
      then obtain q where q: "q < length (take 8 (drop i messages))" "take 8 (drop i messages) ! q = m"
        by (auto simp: in_set_conv_nth)
      then have "i + q < length messages" and "messages ! (i + q) = m"
        by auto
      with m(2) have "\<exists>j. i \<le> j \<and> j < length messages \<and> getMessage net token (messages ! j) = Rejected"
        by (intro exI [of _ "i + q"]) simp
      moreover from True Rejected have "isl (fetchDetails net token messages i details)"
        by (subst fetchDetails.simps) simp
      ultimately show ?thesis by simp
    next
      case (Fulfilled ds)
      then have none: "Rejected \<notin> getMessage net token ` set (take 8 (drop i messages))"
        using promiseAll_Rejected [of "map (getMessage net token) (slice i (i + concurrency) messages)"]
        by (simp add: slice_def concurrency_def)
      have early: "getMessage net token (messages ! j) \<noteq> Rejected"
        if "i \<le> j" "j < i + 8" "j < length messages" for j
      proof -
        from that have "messages ! j = take 8 (drop i messages) ! (j - i)"
          and "j - i < length (take 8 (drop i messages))"
          by auto
        then have "messages ! j \<in> set (take 8 (drop i messages))"
          by (metis nth_mem)
        with none show ?thesis by force
      qed
      from True Fulfilled
      have "fetchDetails net token messages i details
              = fetchDetails net token messages (i + concurrency) (details @ ds)"
        by (subst fetchDetails.simps) simp
      moreover note "1" [OF True Fulfilled]
      moreover have "(\<exists>j. i + concurrency \<le> j \<and> j < length messages \<and> getMessage net token (messages ! j) = Rejected)
          \<longleftrightarrow> (\<exists>j. i \<le> j \<and> j < length messages \<and> getMessage net token (messages ! j) = Rejected)"
        unfolding concurrency_def using early
        by (metis add_leE not_le_imp_less)
      ultimately show ?thesis by simp
    qed
  qed
qed

lemma fetchDetails_fails_all:
  "isl (fetchDetails net token messages 0 [])
     \<longleftrightarrow> (\<exists>m\<in>set messages. getMessage net token m = Rejected)"
  unfolding fetchDetails_fails by (simp add: Bex_def in_set_conv_nth) blast

lemma fetchMessages_try_fails:
  "isl (fetchMessages_try net token q maxResults)
     \<longleftrightarrow> (listMessages net token q maxResults = Rejected \<or>
          (\<exists>listRes. listMessages net token q maxResults = Fulfilled listRes \<and>
             (\<not> (200 \<le> status listRes \<and> status listRes \<le> 299) \<or> json listRes = Rejected \<or>
              (\<exists>messages. json listRes = Fulfilled (Some messages) \<and>
                 (\<exists>m\<in>set messages. getMessage net token m = Rejected)))))"
  by (simp add: fetchMessages_try_def fetchDetails_fails_all ok_def
      split: settled.splits option.splits)

lemma scan_cases:
  assumes "aiSession st = Some ai"
  obtains "scoreRecentEmails st net t p sink
             = Inr \<lparr>processedEmails = [], sinkCalls = [[]], prompts = []\<rparr>"
      and "fetchMessages st net (RecentUnread (t div 1000)) 7 = []"
  | s where "scoreRecentEmails st net t p sink = Inr s"
      and "fetchMessages st net (RecentUnread (t div 1000)) 7 \<noteq> []"
proof (cases "fetchMessages st net (RecentUnread (t div 1000)) 7 = []")
  case True
  with assms that(1) show ?thesis
    by (simp add: scoreRecentEmails_empty)
next
  case False
  from scan_returns [OF assms] obtain s where "scoreRecentEmails st net t p sink = Inr s"
    by blast
  with False that(2) show ?thesis
    by blast
qed

lemma analysisOf_step_array:
  assumes run: "scoreRecentEmails st net t p renderEmails = Inr s"
    and ai: "aiSession st = Some ai"
    and d: "distinct (map email_id (fetchMessages st net (RecentUnread (t div 1000)) 7))"
    and ne: "fetchMessages st net (RecentUnread (t div 1000)) 7 \<noteq> []"
    and k: "k < length (prompts s)"
    and arr: "promptScores ai (take k (prompts s)) (prompts s ! k) = ParsedArray rs"
    and x: "x \<in> email_id ` set (fetchMessages st net (RecentUnread (t div 1000)) 7)"
  shows "analysisOf x (sinkCalls s ! Suc k)
           = (case find (\<lambda>r. analysis_id r = x) (rev rs) of
                None \<Rightarrow> analysisOf x (sinkCalls s ! k)
              | Some r \<Rightarrow> Some r)"
proof -
  from k have "k \<le> length (prompts s)" by simp
  from scan_distinct(2) [OF run ai d ne this] x
  have "x \<in> email_id ` set (sinkCalls s ! k)" by simp
  then have "find (\<lambda>e. email_id e = x) (sinkCalls s ! k) \<noteq> None"
    by (auto simp: find_None_iff)
  then obtain e where e: "find (\<lambda>e. email_id e = x) (sinkCalls s ! k) = Some e"
    by blast
  then have "email_id e = x" by (auto dest: find_key_Some)
  with e show ?thesis
    unfolding analysisOf_step [OF run ai d ne k] arr
    by (simp add: analysisOf_def mergedEmail_def split: option.splits)
qed

lemma analysisOf_step_failed:
  assumes run: "scoreRecentEmails st net t p renderEmails = Inr s"
    and ai: "aiSession st = Some ai"
    and d: "distinct (map email_id (fetchMessages st net (RecentUnread (t div 1000)) 7))"
    and ne: "fetchMessages st net (RecentUnread (t div 1000)) 7 \<noteq> []"
    and k: "k < length (prompts s)"
    and failed: "promptScores ai (take k (prompts s)) (prompts s ! k) = CallFailed"
    and x: "x \<in> email_id ` set (fetchMessages st net (RecentUnread (t div 1000)) 7)"
  shows "analysisOf x (sinkCalls s ! Suc k)
           = (if x \<in> email_id ` set (slice (5 * k) (5 * k + 5)
                                       (fetchMessages st net (RecentUnread (t div 1000)) 7))
              then Some (failedAnalysis x) else analysisOf x (sinkCalls s ! k))"
proof -
  from k have "k \<le> length (prompts s)" by simp
  from scan_distinct(2) [OF run ai d ne this] x
  have "x \<in> email_id ` set (sinkCalls s ! k)" by simp
  then have "find (\<lambda>e. email_id e = x) (sinkCalls s ! k) \<noteq> None"
    by (auto simp: find_None_iff)
  then obtain e where e: "find (\<lambda>e. email_id e = x) (sinkCalls s ! k) = Some e"
    by blast
  then have "email_id e = x" by (auto dest: find_key_Some)
  with e show ?thesis
    unfolding analysisOf_step [OF run ai d ne k] failed
    by (simp add: analysisOf_def mergedEmail_def)
qed

lemma ex_Inr_projr: "\<exists>s. x = Inr s \<and> Q s \<Longrightarrow> x = Inr (projr x) \<and> Q (projr x)"
  by auto

section \<open>The claims\<close>

subsection \<open>C1: a failing fetch of the recent window\<close>

text \<open>
  C1 (as amended). With a token, the \<^verbatim>\<open>try\<close> of \<^verbatim>\<open>fetchMessages\<close> throws exactly when
  the list request is rejected, or is answered with a status outside 200..299,
  or with a body that cannot be read, or when the request for one of the listed
  messages is rejected (the request itself or the reading of its body). Whenever
  it throws, for whatever query and limit, \<^verbatim>\<open>fetchMessages\<close> returns the empty
  array: the failure is not propagated, for the recent window no more than for
  the historical samples. With a session, \<^verbatim>\<open>scoreRecentEmails\<close> then returns
  normally after calling the sink once with an empty collection and sending no
  prompt: it proceeds as for an empty window.
\<close>

theorem C1_window_fetch_failure_degraded:
  assumes "aiSession st = Some ai"
    and "accessToken st = Some token" and "token \<noteq> []"
  shows "(isl (fetchMessages_try net token q maxResults) \<longleftrightarrow>
            listMessages net token q maxResults = Rejected \<or>
            (\<exists>listRes. listMessages net token q maxResults = Fulfilled listRes \<and>
               (\<not> (200 \<le> status listRes \<and> status listRes \<le> 299) \<or> json listRes = Rejected \<or>
                (\<exists>messages. json listRes = Fulfilled (Some messages) \<and>
                   (\<exists>m\<in>set messages. getMessage net token m = Rejected))))) \<and>
         (isl (fetchMessages_try net token q maxResults) \<longrightarrow> fetchMessages st net q maxResults = []) \<and>
         (isl (fetchMessages_try net token (RecentUnread (twoDaysAgo div 1000)) 7) \<longrightarrow>
            fetchMessages st net (RecentUnread (twoDaysAgo div 1000)) 7 = [] \<and>
            scoreRecentEmails st net twoDaysAgo profile onBatchProcessed
              = Inr \<lparr>processedEmails = [], sinkCalls = [[]], prompts = []\<rparr>)"
proof (intro conjI impI)
  show "isl (fetchMessages_try net token q maxResults) \<longleftrightarrow>
            listMessages net token q maxResults = Rejected \<or>
            (\<exists>listRes. listMessages net token q maxResults = Fulfilled listRes \<and>
               (\<not> (200 \<le> status listRes \<and> status listRes \<le> 299) \<or> json listRes = Rejected \<or>
                (\<exists>messages. json listRes = Fulfilled (Some messages) \<and>
                   (\<exists>m\<in>set messages. getMessage net token m = Rejected))))"
    by (rule fetchMessages_try_fails)
  have empty: "fetchMessages st net q' m = []" if "isl (fetchMessages_try net token q' m)" for q' m
    using that assms(2,3) by (auto simp: fetchMessages_def split: sum.splits)
  show "fetchMessages st net q maxResults = []" if "isl (fetchMessages_try net token q maxResults)"
    using that by (rule empty)
  show "fetchMessages st net (RecentUnread (twoDaysAgo div 1000)) 7 = []"
    if "isl (fetchMessages_try net token (RecentUnread (twoDaysAgo div 1000)) 7)"
    using that by (rule empty)
  show "scoreRecentEmails st net twoDaysAgo profile onBatchProcessed
              = Inr \<lparr>processedEmails = [], sinkCalls = [[]], prompts = []\<rparr>"
    if "isl (fetchMessages_try net token (RecentUnread (twoDaysAgo div 1000)) 7)"
    using assms(1) empty [OF that] by (rule scoreRecentEmails_empty)
qed

theorem C1_witness:
  "listMessages unreachable ''token'' (RecentUnread (172800000 div 1000)) 7 = Rejected \<and>
   isl (fetchMessages_try unreachable ''token'' (RecentUnread (172800000 div 1000)) 7) \<and>
   fetchMessages (signedIn (session (\<lambda>h p. CallFailed))) unreachable (RecentUnread (172800000 div 1000)) 7 = [] \<and>
   scoreRecentEmails (signedIn (session (\<lambda>h p. CallFailed))) unreachable 172800000 noProfile renderEmails
     = Inr \<lparr>processedEmails = [], sinkCalls = [[]], prompts = []\<rparr> \<and>
   listMessages (unreachable\<lparr>listMessages := \<lambda>token q maxResults.
                    Fulfilled \<lparr>status = 503, json = Fulfilled None\<rparr>\<rparr>)
       ''token'' (RecentUnread (172800000 div 1000)) 7
     = Fulfilled \<lparr>status = 503, json = Fulfilled None\<rparr> \<and>
   scoreRecentEmails (signedIn (session (\<lambda>h p. CallFailed)))
       (unreachable\<lparr>listMessages := \<lambda>token q maxResults.
          Fulfilled \<lparr>status = 503, json = Fulfilled None\<rparr>\<rparr>) 172800000 noProfile renderEmails
     = Inr \<lparr>processedEmails = [], sinkCalls = [[]], prompts = []\<rparr>"
proof -
  let ?S = "signedIn (session (\<lambda>h p. CallFailed))"
  let ?down = "unreachable\<lparr>listMessages := \<lambda>token q maxResults.
                    Fulfilled \<lparr>status = 503, json = Fulfilled None\<rparr>\<rparr>"
  have a: "aiSession ?S = Some (session (\<lambda>h p. CallFailed))"
    and t: "accessToken ?S = Some ''token''"
    by (simp_all add: signedIn_def)
  have n: "''token'' \<noteq> []" by simp
  have l: "listMessages unreachable ''token'' (RecentUnread (172800000 div 1000)) 7 = Rejected"
    by (simp add: unreachable_def)
  have l': "listMessages ?down ''token'' (RecentUnread (172800000 div 1000)) 7
              = Fulfilled \<lparr>status = 503, json = Fulfilled None\<rparr>"
    by simp
  note u = C1_window_fetch_failure_degraded [OF a t n, of unreachable "RecentUnread (172800000 div 1000)" 7
      172800000 noProfile renderEmails]
  note v = C1_window_fetch_failure_degraded [OF a t n, of ?down "RecentUnread (172800000 div 1000)" 7
      172800000 noProfile renderEmails]
  from u l have 1: "isl (fetchMessages_try unreachable ''token'' (RecentUnread (172800000 div 1000)) 7)"
    by blast
  from v l' have 2: "isl (fetchMessages_try ?down ''token'' (RecentUnread (172800000 div 1000)) 7)"
    by simp
  from u 1 have "fetchMessages ?S unreachable (RecentUnread (172800000 div 1000)) 7 = []"
    and "scoreRecentEmails ?S unreachable 172800000 noProfile renderEmails
           = Inr \<lparr>processedEmails = [], sinkCalls = [[]], prompts = []\<rparr>"
    by blast+
  moreover from v 2 have "scoreRecentEmails ?S ?down 172800000 noProfile renderEmails
           = Inr \<lparr>processedEmails = [], sinkCalls = [[]], prompts = []\<rparr>"
    by blast
  ultimately show ?thesis
    using l l' 1 by (intro conjI)
qed

text \<open>
  The claim as stated fails when the mail store cannot be reached: the list call
  rejects, the scan is the same as over an empty mailbox, and
  \<^verbatim>\<open>analyzeAndDisplayEmails\<close> reports completion, not an error.
\<close>

theorem C1_counterexample:
  "listMessages unreachable ''token'' (RecentUnread 172800) 7 = Rejected \<and>
   scoreRecentEmails (signedIn (session (\<lambda>h p. CallFailed))) unreachable 172800000 noProfile renderEmails
     = scoreRecentEmails (signedIn (session (\<lambda>h p. CallFailed))) (mailbox []) 172800000 noProfile renderEmails \<and>
   fst (analyzeAndDisplayEmails (signedIn (session (\<lambda>h p. CallFailed))) unreachable
          \<lparr>USER_PROFILE = Some noProfile, LAST_ANALYSIS_TIMESTAMP = Some 1700000000000\<rparr>
          1700000001000 1700000001000 172800000)
     = AnalysisComplete \<lparr>processedEmails = [], sinkCalls = [[]], prompts = []\<rparr>"
  by (simp add: scoreRecentEmails_def fetchMessages_def fetchMessages_try_def unreachable_def
      mailbox_def signedIn_def session_def ok_def fetchDetails.simps analyzeAndDisplayEmails_def
      loadUserProfile_def isProfileStale_def PROFILE_REFRESH_INTERVAL_def Let_def)

subsection \<open>C2: a message the returned array omits\<close>




subsection \<open>C3: the merge of a returned array\<close>

text \<open>
  C3 (as amended). In a scan rendered by \<^verbatim>\<open>renderEmails\<close> over a window whose ids
  are pairwise different, when the call for batch \<open>k\<close> comes to an array, the
  collection handed to the sink next is the collection the sink left with, in
  place, each message whose id some entry of the array carries holding the last
  such entry, and every other message as it was. Entries whose id belongs to no
  message of the window have no effect: the merge is the same without them. A
  message of the batch whose id the array does not name holds afterwards what it
  held before, and it ends the scan with its placeholder, at score -1, when no
  array returned during the scan names its id. Nothing in the loop fills it in;
  an array returned for another batch that names it overwrites it.
\<close>

theorem C3_success_merge:
  assumes "aiSession st = Some ai"
    and "distinct (map email_id (fetchMessages st net (RecentUnread (twoDaysAgo div 1000)) 7))"
  shows "\<exists>s. scoreRecentEmails st net twoDaysAgo profile renderEmails = Inr s \<and>
    (\<forall>k<length (prompts s). \<forall>rs.
       promptScores ai (take k (prompts s)) (prompts s ! k) = ParsedArray rs \<longrightarrow>
         sinkCalls s ! Suc k
           = map (\<lambda>e. case find (\<lambda>r. analysis_id r = email_id e) (rev rs) of
                        None \<Rightarrow> e
                      | Some r \<Rightarrow> e\<lparr>analysisData := r\<rparr>)
               (renderEmails (sinkCalls s ! k)) \<and>
         sinkCalls s ! Suc k
           = mergeOutcome
               (ParsedArray (filter (\<lambda>r. analysis_id r
                    \<in> email_id ` set (fetchMessages st net (RecentUnread (twoDaysAgo div 1000)) 7)) rs))
               (slice (5 * k) (5 * k + 5) (fetchMessages st net (RecentUnread (twoDaysAgo div 1000)) 7))
               (renderEmails (sinkCalls s ! k)) \<and>
         (\<forall>x\<in>email_id ` set (slice (5 * k) (5 * k + 5)
                                (fetchMessages st net (RecentUnread (twoDaysAgo div 1000)) 7)).
            x \<notin> analysis_id ` set rs \<longrightarrow>
              analysisOf x (sinkCalls s ! Suc k) = analysisOf x (sinkCalls s ! k) \<and>
              ((\<forall>m<length (prompts s). \<forall>rs'.
                  promptScores ai (take m (prompts s)) (prompts s ! m) = ParsedArray rs'
                    \<longrightarrow> x \<notin> analysis_id ` set rs') \<longrightarrow>
                 analysisOf x (processedEmails s) = Some (placeholderAnalysis x))))"
proof (rule scan_cases [OF assms(1), of net twoDaysAgo profile renderEmails])
  assume "scoreRecentEmails st net twoDaysAgo profile renderEmails
            = Inr \<lparr>processedEmails = [], sinkCalls = [[]], prompts = []\<rparr>"
  then show ?thesis
    by simp
next
  fix s
  assume run: "scoreRecentEmails st net twoDaysAgo profile renderEmails = Inr s"
    and ne: "fetchMessages st net (RecentUnread (twoDaysAgo div 1000)) 7 \<noteq> []"
  let ?W = "fetchMessages st net (RecentUnread (twoDaysAgo div 1000)) 7"
  note tr = scan_trace [OF run assms(1) ne]
  have "sinkCalls s ! Suc k
           = map (\<lambda>e. case find (\<lambda>r. analysis_id r = email_id e) (rev rs) of
                        None \<Rightarrow> e
                      | Some r \<Rightarrow> e\<lparr>analysisData := r\<rparr>)
               (renderEmails (sinkCalls s ! k)) \<and>
         sinkCalls s ! Suc k
           = mergeOutcome (ParsedArray (filter (\<lambda>r. analysis_id r \<in> email_id ` set ?W) rs))
               (slice (5 * k) (5 * k + 5) ?W) (renderEmails (sinkCalls s ! k)) \<and>
         (\<forall>x\<in>email_id ` set (slice (5 * k) (5 * k + 5) ?W).
            x \<notin> analysis_id ` set rs \<longrightarrow>
              analysisOf x (sinkCalls s ! Suc k) = analysisOf x (sinkCalls s ! k) \<and>
              ((\<forall>m<length (prompts s). \<forall>rs'.
                  promptScores ai (take m (prompts s)) (prompts s ! m) = ParsedArray rs'
                    \<longrightarrow> x \<notin> analysis_id ` set rs') \<longrightarrow>
                 analysisOf x (processedEmails s) = Some (placeholderAnalysis x)))"
    if k: "k < length (prompts s)"
      and arr: "promptScores ai (take k (prompts s)) (prompts s ! k) = ParsedArray rs" for k rs
  proof (intro conjI ballI impI)
    show "sinkCalls s ! Suc k
           = map (\<lambda>e. case find (\<lambda>r. analysis_id r = email_id e) (rev rs) of
                        None \<Rightarrow> e
                      | Some r \<Rightarrow> e\<lparr>analysisData := r\<rparr>)
               (renderEmails (sinkCalls s ! k))"
      unfolding scan_step [OF run assms ne k] arr
      by (rule map_cong) (simp_all add: mergedEmail_def)
  next
    from k have "k \<le> length (prompts s)" by simp
    note dk = scan_distinct [OF run assms ne this]
    from dk(1) have dr: "distinct (map email_id (renderEmails (sinkCalls s ! k)))"
      by (simp add: distinct_ids_renderEmails)
    have ids: "email_id ` set (renderEmails (sinkCalls s ! k)) = email_id ` set ?W"
      using dk(2) mset_eq_setD [OF renderEmails_mset [of "sinkCalls s ! k"]] by simp
    from tr(4) k arr
    have "sinkCalls s ! Suc k
            = mergeOutcome (ParsedArray rs) (slice (5 * k) (5 * k + 5) ?W)
                (renderEmails (sinkCalls s ! k))"
      by simp
    also have "\<dots> = mergeOutcome
               (ParsedArray (filter (\<lambda>r. analysis_id r
                    \<in> email_id ` set (renderEmails (sinkCalls s ! k))) rs))
               (slice (5 * k) (5 * k + 5) ?W) (renderEmails (sinkCalls s ! k))"
      using dr by (rule mergeOutcome_drop_unmatched)
    finally show "sinkCalls s ! Suc k
           = mergeOutcome (ParsedArray (filter (\<lambda>r. analysis_id r \<in> email_id ` set ?W) rs))
               (slice (5 * k) (5 * k + 5) ?W) (renderEmails (sinkCalls s ! k))"
      unfolding ids .
  next
    fix x
    assume x: "x \<in> email_id ` set (slice (5 * k) (5 * k + 5) ?W)"
      and absent: "x \<notin> analysis_id ` set rs"
    show "analysisOf x (sinkCalls s ! Suc k) = analysisOf x (sinkCalls s ! k)"
      using absent arr by (intro analysisOf_step_untouched [OF run assms ne k]) simp_all
  next
    fix x
    assume x: "x \<in> email_id ` set (slice (5 * k) (5 * k + 5) ?W)"
      and never: "\<forall>m<length (prompts s). \<forall>rs'.
                  promptScores ai (take m (prompts s)) (prompts s ! m) = ParsedArray rs'
                    \<longrightarrow> x \<notin> analysis_id ` set rs'"
    from x slice_subset [of "5 * k" "5 * k + 5" ?W] have xW: "x \<in> email_id ` set ?W"
      by blast
    have quiet: "(\<forall>rs. promptScores ai (take m (prompts s)) (prompts s ! m) = ParsedArray rs
                \<longrightarrow> x \<notin> analysis_id ` set rs) \<and>
        (promptScores ai (take m (prompts s)) (prompts s ! m) = CallFailed
           \<longrightarrow> x \<notin> email_id ` set (slice (5 * m) (5 * m + 5) ?W))"
      if "0 \<le> m" and m: "m < length (prompts s)" for m
    proof (intro conjI impI)
      from never m show "\<forall>rs. promptScores ai (take m (prompts s)) (prompts s ! m) = ParsedArray rs
                \<longrightarrow> x \<notin> analysis_id ` set rs"
        by blast
    next
      assume failed: "promptScores ai (take m (prompts s)) (prompts s ! m) = CallFailed"
      show "x \<notin> email_id ` set (slice (5 * m) (5 * m + 5) ?W)"
      proof
        assume "x \<in> email_id ` set (slice (5 * m) (5 * m + 5) ?W)"
        from slice_disjoint [OF assms(2) x this] have "k = m" .
        with arr failed show False by simp
      qed
    qed
    have "analysisOf x (processedEmails s) = analysisOf x (sinkCalls s ! 0)"
      by (rule analysisOf_persist [OF run assms ne _ quiet]) simp_all
    with xW show "analysisOf x (processedEmails s) = Some (placeholderAnalysis x)"
      unfolding tr(3) by (simp add: analysisOf_seeded)
  qed
  with run show ?thesis
    by blast
qed

theorem C3_witness:
  "(let s = projr (scoreRecentEmails
               (signedIn (session (\<lambda>h q. ParsedArray [scored ''A'' 80, scored ''Z'' 5, scored ''C'' 30])))
               (mailbox [''A'', ''B'', ''C'']) 0 noProfile renderEmails)
    in prompts s = [(noProfile, map toEmailToScore (map msg [''A'', ''B'', ''C'']))] \<and>
       sinkCalls s ! 0 = seeded [''A'', ''B'', ''C''] \<and>
       sinkCalls s ! 1
         = mergeOutcome (ParsedArray [scored ''A'' 80, scored ''C'' 30]) (map msg [''A'', ''B'', ''C''])
             (renderEmails (sinkCalls s ! 0)) \<and>
       analysisOf ''B'' (sinkCalls s ! 1) = analysisOf ''B'' (sinkCalls s ! 0) \<and>
       analysisOf ''B'' (processedEmails s) = Some (placeholderAnalysis ''B'') \<and>
       map (\<lambda>e. (email_id e, score (analysisData e))) (processedEmails s)
         = [(''A'', 80), (''C'', 30), (''B'', - 1)])"
proof -
  let ?f = "\<lambda>(h :: scorePrompt list) (q :: scorePrompt).
              ParsedArray [scored ''A'' 80, scored ''Z'' 5, scored ''C'' 30]"
  let ?N = "mailbox [''A'', ''B'', ''C'']"
  let ?s = "projr (scoreRecentEmails (signedIn (session ?f)) ?N 0 noProfile renderEmails)"
  have a: "aiSession (signedIn (session ?f)) = Some (session ?f)"
    by (simp add: signedIn_def)
  have d: "distinct (map email_id (fetchMessages (signedIn (session ?f)) ?N (RecentUnread (0 div 1000)) 7))"
    unfolding fetch3 by (simp add: msg_def)
  note t = ex_Inr_projr [OF C3_success_merge [OF a d, where profile = noProfile], unfolded fetch3]
  have c1: "0 < length (prompts ?s)"
    and c0: "prompts ?s = [(noProfile, map toEmailToScore (map msg [''A'', ''B'', ''C'']))]"
    and cs: "sinkCalls ?s ! 0 = seeded [''A'', ''B'', ''C'']"
    and cf: "map (\<lambda>e. (email_id e, score (analysisData e))) (processedEmails ?s)
         = [(''A'', 80), (''C'', 30), (''B'', - 1)]"
    by code_simp+
  have c2: "promptScores (session ?f) (take 0 (prompts ?s)) (prompts ?s ! 0)
              = ParsedArray [scored ''A'' 80, scored ''Z'' 5, scored ''C'' 30]"
    by (simp add: session_def)
  note q = t [THEN conjunct2, rule_format, OF c1 c2]
  have flt: "filter (\<lambda>r. analysis_id r \<in> email_id ` set (map msg [''A'', ''B'', ''C'']))
               [scored ''A'' 80, scored ''Z'' 5, scored ''C'' 30]
             = [scored ''A'' 80, scored ''C'' 30]"
    by (simp add: scored_def msg_def)
  from q [THEN conjunct2, THEN conjunct1]
  have m: "sinkCalls ?s ! 1
         = mergeOutcome (ParsedArray [scored ''A'' 80, scored ''C'' 30]) (map msg [''A'', ''B'', ''C''])
             (renderEmails (sinkCalls ?s ! 0))"
    unfolding flt by (simp add: slice_def)
  have xb: "''B'' \<in> email_id ` set (slice (5 * 0) (5 * 0 + 5) (map msg [''A'', ''B'', ''C'']))"
    by (simp add: slice_def msg_def)
  have nb: "''B'' \<notin> analysis_id ` set [scored ''A'' 80, scored ''Z'' 5, scored ''C'' 30]"
    by (simp add: scored_def)
  have never: "\<forall>m<length (prompts ?s). \<forall>rs'.
                  promptScores (session ?f) (take m (prompts ?s)) (prompts ?s ! m) = ParsedArray rs'
                    \<longrightarrow> ''B'' \<notin> analysis_id ` set rs'"
    by (auto simp: session_def scored_def)
  note b = q [THEN conjunct2, THEN conjunct2, rule_format, OF xb nb]
  from b [THEN conjunct1]
  have k: "analysisOf ''B'' (sinkCalls ?s ! 1) = analysisOf ''B'' (sinkCalls ?s ! 0)"
    by simp
  from b [THEN conjunct2, THEN mp, OF never]
  have e: "analysisOf ''B'' (processedEmails ?s) = Some (placeholderAnalysis ''B'')" .
  from c0 cs m k e cf show ?thesis
    by (simp only: Let_def)
qed

text \<open>
  The claim as stated fails in two ways. Over a window of six messages, the first
  batch's array scores only \<open>b\<close> and the second batch's array names \<open>a\<close>: absent
  from its own batch's array and at score -1 after it, \<open>a\<close> ends the scan at 77.
  And when two messages of different batches have no id, the first batch's array
  scoring only \<open>b\<close> and the second batch's call failing, the message of the first
  batch without an id, absent from the array, ends the scan with the failure
  record of the other batch, at score 0.
\<close>

theorem C3_counterexample:
  "(let s = projr (scoreRecentEmails (signedIn (session catchingUp))
               (mailbox [''a'', ''b'', ''c'', ''d'', ''e'', ''f'']) 0 noProfile renderEmails)
    in prompts s ! 0 = (noProfile, map toEmailToScore (map msg [''a'', ''b'', ''c'', ''d'', ''e''])) \<and>
       promptScores (session catchingUp) (take 0 (prompts s)) (prompts s ! 0)
         = ParsedArray [scored ''b'' 50] \<and>
       map (\<lambda>e. (email_id e, score (analysisData e))) (sinkCalls s ! 1)
         = [(''a'', - 1), (''b'', 50), (''c'', - 1), (''d'', - 1), (''e'', - 1), (''f'', - 1)] \<and>
       map (\<lambda>e. (email_id e, score (analysisData e))) (processedEmails s)
         = [(''a'', 77), (''b'', 50), (''f'', 5), (''c'', - 1), (''d'', - 1), (''e'', - 1)]) \<and>
   (let s = projr (scoreRecentEmails
               (signedIn (session (\<lambda>h q. if h = [] then ParsedArray [scored ''b'' 50] else CallFailed)))
               (damaged [''p'', ''b'', ''c'', ''d'', ''e'', ''q''] [''p'', ''q'']) 0 noProfile renderEmails)
    in map (\<lambda>e. (email_id e, snippet e, score (analysisData e))) (sinkCalls s ! 1)
         = [([], ''p'', - 1), (''b'', ''text'', 50), (''c'', ''text'', - 1), (''d'', ''text'', - 1),
            (''e'', ''text'', - 1), ([], ''q'', - 1)] \<and>
       map (\<lambda>e. (email_id e, snippet e, score (analysisData e))) (processedEmails s)
         = [(''b'', ''text'', 50), ([], ''p'', 0), (''c'', ''text'', - 1), (''d'', ''text'', - 1),
            (''e'', ''text'', - 1), ([], ''q'', - 1)])"
  by code_simp

subsection \<open>C4: a batch whose call fails\<close>

text \<open>
  C4 (as amended). In a scan rendered by \<^verbatim>\<open>renderEmails\<close> over a window whose ids
  are pairwise different, one prompt is sent for every batch of the window,
  whatever the earlier calls came to, and the sink is called after each. When the
  call for batch \<open>k\<close> fails (it rejects, or its text does not parse), the
  collection handed to the sink next is the collection the sink left with the
  failure record (score 0, the title "AI analysis failed for this email.", one
  negative reason, the message's own id) on exactly the messages of the window at
  positions \<open>5k\<close> to \<open>5k + 4\<close>, whatever they held before, and every other message
  as it was. When the text parses to something that is not an array, nothing is
  written: the collection is handed to the sink as the sink left it.
\<close>

theorem C4_batch_failure:
  assumes "aiSession st = Some ai"
    and "distinct (map email_id (fetchMessages st net (RecentUnread (twoDaysAgo div 1000)) 7))"
  shows "\<exists>s. scoreRecentEmails st net twoDaysAgo profile renderEmails = Inr s \<and>
    (\<forall>k<length (prompts s).
       (promptScores ai (take k (prompts s)) (prompts s ! k) = CallFailed \<longrightarrow>
          sinkCalls s ! Suc k
            = map (\<lambda>e. if email_id e \<in> email_id ` set (slice (5 * k) (5 * k + 5)
                                           (fetchMessages st net (RecentUnread (twoDaysAgo div 1000)) 7))
                        then e\<lparr>analysisData := failedAnalysis (email_id e)\<rparr> else e)
                (renderEmails (sinkCalls s ! k)) \<and>
          (\<forall>i<length (fetchMessages st net (RecentUnread (twoDaysAgo div 1000)) 7).
             analysisOf (email_id (fetchMessages st net (RecentUnread (twoDaysAgo div 1000)) 7 ! i))
                 (sinkCalls s ! Suc k)
               = (if 5 * k \<le> i \<and> i < 5 * k + 5
                  then Some (failedAnalysis
                               (email_id (fetchMessages st net (RecentUnread (twoDaysAgo div 1000)) 7 ! i)))
                  else analysisOf (email_id (fetchMessages st net (RecentUnread (twoDaysAgo div 1000)) 7 ! i))
                         (sinkCalls s ! k)))) \<and>
       (promptScores ai (take k (prompts s)) (prompts s ! k) = ParsedOther \<longrightarrow>
          sinkCalls s ! Suc k = renderEmails (sinkCalls s ! k))) \<and>
    length (prompts s)
      = (length (fetchMessages st net (RecentUnread (twoDaysAgo div 1000)) 7) + 4) div 5 \<and>
    length (sinkCalls s) = Suc (length (prompts s)) \<and>
    (\<forall>k<length (prompts s).
       prompts s ! k
         = (profile, map toEmailToScore
              (slice (5 * k) (5 * k + 5) (fetchMessages st net (RecentUnread (twoDaysAgo div 1000)) 7)))) \<and>
    analysis_id (failedAnalysis x) = x \<and> score (failedAnalysis x) = 0 \<and>
    summarizedTitle (failedAnalysis x) = ''AI analysis failed for this email.'' \<and>
    length (negativeReasons (failedAnalysis x)) = 1 \<and> positiveReasons (failedAnalysis x) = []"
proof (rule scan_cases [OF assms(1), of net twoDaysAgo profile renderEmails])
  assume "scoreRecentEmails st net twoDaysAgo profile renderEmails
            = Inr \<lparr>processedEmails = [], sinkCalls = [[]], prompts = []\<rparr>"
    and "fetchMessages st net (RecentUnread (twoDaysAgo div 1000)) 7 = []"
  then show ?thesis
    by (simp add: failedAnalysis_def)
next
  fix s
  assume run: "scoreRecentEmails st net twoDaysAgo profile renderEmails = Inr s"
    and ne: "fetchMessages st net (RecentUnread (twoDaysAgo div 1000)) 7 \<noteq> []"
  let ?W = "fetchMessages st net (RecentUnread (twoDaysAgo div 1000)) 7"
  note tr = scan_trace [OF run assms(1) ne]
  have failed: "sinkCalls s ! Suc k
            = map (\<lambda>e. if email_id e \<in> email_id ` set (slice (5 * k) (5 * k + 5) ?W)
                        then e\<lparr>analysisData := failedAnalysis (email_id e)\<rparr> else e)
                (renderEmails (sinkCalls s ! k)) \<and>
          (\<forall>i<length ?W.
             analysisOf (email_id (?W ! i)) (sinkCalls s ! Suc k)
               = (if 5 * k \<le> i \<and> i < 5 * k + 5
                  then Some (failedAnalysis (email_id (?W ! i)))
                  else analysisOf (email_id (?W ! i)) (sinkCalls s ! k)))"
    if k: "k < length (prompts s)"
      and f: "promptScores ai (take k (prompts s)) (prompts s ! k) = CallFailed" for k
  proof (intro conjI allI impI)
    show "sinkCalls s ! Suc k
            = map (\<lambda>e. if email_id e \<in> email_id ` set (slice (5 * k) (5 * k + 5) ?W)
                        then e\<lparr>analysisData := failedAnalysis (email_id e)\<rparr> else e)
                (renderEmails (sinkCalls s ! k))"
      unfolding scan_step [OF run assms ne k] f
      by (rule map_cong) (simp_all add: mergedEmail_def)
  next
    fix i
    assume i: "i < length ?W"
    then have "email_id (?W ! i) \<in> email_id ` set ?W"
      by simp
    from analysisOf_step_failed [OF run assms ne k f this]
      in_slice_iff [OF assms(2) i, of "5 * k" 5]
    show "analysisOf (email_id (?W ! i)) (sinkCalls s ! Suc k)
               = (if 5 * k \<le> i \<and> i < 5 * k + 5
                  then Some (failedAnalysis (email_id (?W ! i)))
                  else analysisOf (email_id (?W ! i)) (sinkCalls s ! k))"
      by simp
  qed
  have other: "sinkCalls s ! Suc k = renderEmails (sinkCalls s ! k)"
    if k: "k < length (prompts s)"
      and f: "promptScores ai (take k (prompts s)) (prompts s ! k) = ParsedOther" for k
    unfolding scan_step [OF run assms ne k] f
    by (simp add: mergedEmail_funs)
  from tr(4) have sent: "\<forall>k<length (prompts s).
       prompts s ! k = (profile, map toEmailToScore (slice (5 * k) (5 * k + 5) ?W))"
    by blast
  have rec: "analysis_id (failedAnalysis x) = x \<and> score (failedAnalysis x) = 0 \<and>
    summarizedTitle (failedAnalysis x) = ''AI analysis failed for this email.'' \<and>
    length (negativeReasons (failedAnalysis x)) = 1 \<and> positiveReasons (failedAnalysis x) = []"
    by (simp add: failedAnalysis_def)
  from tr(1,2) have len: "length (prompts s) = (length ?W + 4) div 5"
    and calls: "length (sinkCalls s) = Suc (length (prompts s))"
    by simp_all
  from run failed other sent rec len calls show ?thesis
    by blast
qed

theorem C4_witness:
  "(let s = projr (scoreRecentEmails (signedIn (session failingFirst))
               (mailbox [''a'', ''b'', ''c'', ''d'', ''e'', ''f'']) 0 noProfile renderEmails)
    in promptScores (session failingFirst) (take 0 (prompts s)) (prompts s ! 0) = CallFailed \<and>
       analysisOf ''a'' (sinkCalls s ! 1) = Some (failedAnalysis ''a'') \<and>
       analysisOf ''e'' (sinkCalls s ! 1) = Some (failedAnalysis ''e'') \<and>
       analysisOf ''f'' (sinkCalls s ! 1) = analysisOf ''f'' (sinkCalls s ! 0) \<and>
       length (prompts s) = 2 \<and> length (sinkCalls s) = 3 \<and>
       prompts s ! 1 = (noProfile, map toEmailToScore [msg ''f''])) \<and>
   (let s = projr (scoreRecentEmails (signedIn (session namingAhead))
               (mailbox [''a'', ''b'', ''c'', ''d'', ''e'', ''f'']) 0 noProfile renderEmails)
    in promptScores (session namingAhead) (take 1 (prompts s)) (prompts s ! 1) = CallFailed \<and>
       analysisOf ''a'' (sinkCalls s ! 1) = Some (scored ''a'' 80) \<and>
       analysisOf ''f'' (sinkCalls s ! 1) = Some (scored ''f'' 60) \<and>
       analysisOf ''a'' (sinkCalls s ! 2) = analysisOf ''a'' (sinkCalls s ! 1) \<and>
       analysisOf ''b'' (sinkCalls s ! 2) = analysisOf ''b'' (sinkCalls s ! 1) \<and>
       analysisOf ''f'' (sinkCalls s ! 2) = Some (failedAnalysis ''f'')) \<and>
   (let s = projr (scoreRecentEmails (signedIn (session (\<lambda>h q. ParsedOther)))
               (mailbox [''a'', ''b'', ''c'', ''d'', ''e'', ''f'']) 0 noProfile renderEmails)
    in promptScores (session (\<lambda>h q. ParsedOther)) (take 0 (prompts s)) (prompts s ! 0) = ParsedOther \<and>
       sinkCalls s ! 1 = renderEmails (sinkCalls s ! 0))"
proof -
  let ?N = "mailbox [''a'', ''b'', ''c'', ''d'', ''e'', ''f'']"
  have w: "fetchMessages (signedIn ai) ?N (RecentUnread (0 div 1000)) 7
             = map msg [''a'', ''b'', ''c'', ''d'', ''e'', ''f'']" for ai
    by (simp add: fetchMessages_def fetchMessages_try_def signedIn_def mailbox_def ok_def
        fetchDetails.simps slice_def concurrency_def)
  have a: "aiSession (signedIn ai) = Some ai" for ai
    by (simp add: signedIn_def)
  have d: "distinct (map email_id (fetchMessages (signedIn ai) ?N (RecentUnread (0 div 1000)) 7))" for ai
    unfolding w by (simp add: msg_def)
  have i: "email_id (msg x) = x" for x
    by (simp add: msg_def)
  let ?s1 = "projr (scoreRecentEmails (signedIn (session failingFirst)) ?N 0 noProfile renderEmails)"
  note t1 = ex_Inr_projr [OF C4_batch_failure
      [OF a [of "session failingFirst"] d [of "session failingFirst"], where profile = noProfile],
      unfolded w]
  have c1: "0 < length (prompts ?s1)"
    and c2: "promptScores (session failingFirst) (take 0 (prompts ?s1)) (prompts ?s1 ! 0) = CallFailed"
    by code_simp+
  note q1 = t1 [THEN conjunct2, THEN conjunct1, rule_format, OF c1, THEN conjunct1, rule_format,
      OF c2, THEN conjunct2, rule_format]
  from q1 [of 0] q1 [of 4] q1 [of 5]
  have "analysisOf ''a'' (sinkCalls ?s1 ! 1) = Some (failedAnalysis ''a'')"
    and "analysisOf ''e'' (sinkCalls ?s1 ! 1) = Some (failedAnalysis ''e'')"
    and "analysisOf ''f'' (sinkCalls ?s1 ! 1) = analysisOf ''f'' (sinkCalls ?s1 ! 0)"
    by (simp_all add: i)
  moreover from t1 [THEN conjunct2, THEN conjunct2]
  have "length (prompts ?s1) = 2" and "length (sinkCalls ?s1) = 3"
    and "prompts ?s1 ! 1 = (noProfile, map toEmailToScore [msg ''f''])"
    by (simp_all add: slice_def)
  ultimately have 1: "let s = ?s1
    in promptScores (session failingFirst) (take 0 (prompts s)) (prompts s ! 0) = CallFailed \<and>
       analysisOf ''a'' (sinkCalls s ! 1) = Some (failedAnalysis ''a'') \<and>
       analysisOf ''e'' (sinkCalls s ! 1) = Some (failedAnalysis ''e'') \<and>
       analysisOf ''f'' (sinkCalls s ! 1) = analysisOf ''f'' (sinkCalls s ! 0) \<and>
       length (prompts s) = 2 \<and> length (sinkCalls s) = 3 \<and>
       prompts s ! 1 = (noProfile, map toEmailToScore [msg ''f''])"
    using c2 by (simp add: Let_def)
  let ?s2 = "projr (scoreRecentEmails (signedIn (session namingAhead)) ?N 0 noProfile renderEmails)"
  note t2 = ex_Inr_projr [OF C4_batch_failure
      [OF a [of "session namingAhead"] d [of "session namingAhead"], where profile = noProfile],
      unfolded w]
  have e1: "Suc 0 < length (prompts ?s2)"
    and e2: "promptScores (session namingAhead) (take (Suc 0) (prompts ?s2)) (prompts ?s2 ! Suc 0) = CallFailed"
    and e3: "analysisOf ''a'' (sinkCalls ?s2 ! 1) = Some (scored ''a'' 80)"
    and e4: "analysisOf ''f'' (sinkCalls ?s2 ! 1) = Some (scored ''f'' 60)"
    by code_simp+
  note q2 = t2 [THEN conjunct2, THEN conjunct1, rule_format, OF e1, THEN conjunct1, rule_format,
      OF e2, THEN conjunct2, rule_format]
  from q2 [of 0] q2 [of 1] q2 [of 5]
  have "analysisOf ''a'' (sinkCalls ?s2 ! 2) = analysisOf ''a'' (sinkCalls ?s2 ! 1)"
    and "analysisOf ''b'' (sinkCalls ?s2 ! 2) = analysisOf ''b'' (sinkCalls ?s2 ! 1)"
    and "analysisOf ''f'' (sinkCalls ?s2 ! 2) = Some (failedAnalysis ''f'')"
    by (simp_all add: i numeral_2_eq_2)
  with e2 e3 e4 have 2: "let s = ?s2
    in promptScores (session namingAhead) (take 1 (prompts s)) (prompts s ! 1) = CallFailed \<and>
       analysisOf ''a'' (sinkCalls s ! 1) = Some (scored ''a'' 80) \<and>
       analysisOf ''f'' (sinkCalls s ! 1) = Some (scored ''f'' 60) \<and>
       analysisOf ''a'' (sinkCalls s ! 2) = analysisOf ''a'' (sinkCalls s ! 1) \<and>
       analysisOf ''b'' (sinkCalls s ! 2) = analysisOf ''b'' (sinkCalls s ! 1) \<and>
       analysisOf ''f'' (sinkCalls s ! 2) = Some (failedAnalysis ''f'')"
    by (simp add: Let_def)
  let ?s3 = "projr (scoreRecentEmails (signedIn (session (\<lambda>h q. ParsedOther))) ?N 0 noProfile renderEmails)"
  note t3 = ex_Inr_projr [OF C4_batch_failure
      [OF a [of "session (\<lambda>h q. ParsedOther)"] d [of "session (\<lambda>h q. ParsedOther)"],
       where profile = noProfile], unfolded w]
  have g1: "0 < length (prompts ?s3)"
    by code_simp
  have g2: "promptScores (session (\<lambda>h q. ParsedOther)) (take 0 (prompts ?s3)) (prompts ?s3 ! 0) = ParsedOther"
    by (simp add: session_def)
  note q3 = t3 [THEN conjunct2, THEN conjunct1, rule_format, OF g1, THEN conjunct2, rule_format, OF g2]
  from q3 g2 have 3: "let s = ?s3
    in promptScores (session (\<lambda>h q. ParsedOther)) (take 0 (prompts s)) (prompts s ! 0) = ParsedOther \<and>
       sinkCalls s ! 1 = renderEmails (sinkCalls s ! 0)"
    by (simp add: Let_def)
  from 1 2 3 show ?thesis
    by (intro conjI)
qed

text \<open>
  The claim as stated fails in three ways. An answer that parses but is not an
  array is no failure for the loop: the messages of the batch end the scan with
  their placeholders, not with the failure record. A result that the first
  batch's array gave to \<open>f\<close>, a message of the second batch, is replaced when the
  second batch's call fails. And when two messages of different batches have no
  id, the failure of the second batch puts the record on the message of the
  first batch and leaves the message of the failing batch with its placeholder.
\<close>

theorem C4_counterexample:
  "(let s = projr (scoreRecentEmails (signedIn (session (\<lambda>h q. ParsedOther)))
               (mailbox [''a'', ''b'']) 0 noProfile renderEmails)
    in promptScores (session (\<lambda>h q. ParsedOther)) (take 0 (prompts s)) (prompts s ! 0) = ParsedOther \<and>
       map (\<lambda>e. (email_id e, analysisData e)) (processedEmails s)
         = [(''a'', placeholderAnalysis ''a''), (''b'', placeholderAnalysis ''b'')] \<and>
       placeholderAnalysis ''a'' \<noteq> failedAnalysis ''a'') \<and>
   (let s = projr (scoreRecentEmails (signedIn (session namingAhead))
               (mailbox [''a'', ''b'', ''c'', ''d'', ''e'', ''f'']) 0 noProfile renderEmails)
    in map (\<lambda>e. (email_id e, score (analysisData e))) (sinkCalls s ! 1)
         = [(''a'', 80), (''b'', - 1), (''c'', - 1), (''d'', - 1), (''e'', - 1), (''f'', 60)] \<and>
       promptScores (session namingAhead) (take 1 (prompts s)) (prompts s ! 1) = CallFailed \<and>
       map (\<lambda>e. (email_id e, score (analysisData e))) (sinkCalls s ! 2)
         = [(''a'', 80), (''f'', 0), (''b'', - 1), (''c'', - 1), (''d'', - 1), (''e'', - 1)]) \<and>
   (let s = projr (scoreRecentEmails (signedIn (session namingAhead))
               (damaged [''a'', ''p'', ''c'', ''d'', ''e'', ''q''] [''p'', ''q'']) 0 noProfile renderEmails)
    in map (\<lambda>e. (email_id e, snippet e)) (sinkCalls s ! 0)
         = [(''a'', ''text''), ([], ''p''), (''c'', ''text''), (''d'', ''text''),
            (''e'', ''text''), ([], ''q'')] \<and>
       promptScores (session namingAhead) (take 1 (prompts s)) (prompts s ! 1) = CallFailed \<and>
       map (\<lambda>e. (email_id e, snippet e, score (analysisData e))) (processedEmails s)
         = [(''a'', ''text'', 80), ([], ''p'', 0), (''c'', ''text'', - 1), (''d'', ''text'', - 1),
            (''e'', ''text'', - 1), ([], ''q'', - 1)])"
  by code_simp

subsection \<open>C5: what modifyEmail returns and throws\<close>

text \<open>
  C5 (as amended). Without a token (none, or the empty string) \<^verbatim>\<open>modifyEmail\<close>
  throws "Authentication token not found." to its caller: the check of line 325
  stands before the \<^verbatim>\<open>try\<close>. With a token it never throws: it returns true exactly
  when the modify call resolves with a status in 200..299, and in every other
  case (the call rejecting, any other status, whatever the error body) it logs
  the failure and returns false.
\<close>

theorem C5_modifyEmail_outcomes:
  "(accessToken st = None \<or> accessToken st = Some [] \<longrightarrow>
      modifyEmail st net messageId addLabelIds removeLabelIds = Inl AuthTokenNotFound) \<and>
   (accessToken st = Some token \<and> token \<noteq> [] \<longrightarrow>
      (\<exists>b logged. modifyEmail st net messageId addLabelIds removeLabelIds = Inr (b, logged) \<and>
         (b \<longleftrightarrow> (\<exists>r. modifyMessage net token messageId addLabelIds removeLabelIds = Fulfilled r
                    \<and> 200 \<le> status r \<and> status r \<le> 299)) \<and>
         (\<not> b \<longleftrightarrow> logged \<noteq> [])))"
  by (auto simp: modifyEmail_def modifyEmail_try_def ok_def split: settled.splits)

theorem C5_witness:
  "modifyEmail \<lparr>accessToken = None, isSignedIn = False, aiSession = None\<rparr> unreachable ''a'' [''TRASH''] []
     = Inl AuthTokenNotFound \<and>
   modifyEmail (signedIn (session (\<lambda>h p. CallFailed))) unreachable ''a'' [''TRASH''] []
     = Inr (False, [FetchRejected]) \<and>
   modifyEmail (signedIn (session (\<lambda>h p. CallFailed))) (mailbox [''a'']) ''a'' [''TRASH''] []
     = Inr (True, [])"
  using C5_modifyEmail_outcomes [of "\<lparr>accessToken = None, isSignedIn = False, aiSession = None\<rparr>"
      unreachable "''a''" "[''TRASH'']" "[]" "''token''"]
    C5_modifyEmail_outcomes [of "signedIn (session (\<lambda>h p. CallFailed))"
      unreachable "''a''" "[''TRASH'']" "[]" "''token''"]
    C5_modifyEmail_outcomes [of "signedIn (session (\<lambda>h p. CallFailed))"
      "mailbox [''a'']" "''a''" "[''TRASH'']" "[]" "''token''"]
  by (simp add: signedIn_def unreachable_def mailbox_def modifyEmail_def modifyEmail_try_def ok_def)

text \<open>Signed out, deleting a message throws instead of returning false.\<close>

theorem C5_counterexample:
  "deleteEmail \<lparr>accessToken = None, isSignedIn = False, aiSession = None\<rparr> (mailbox [''a'']) ''a''
     = Inl AuthTokenNotFound"
  by (simp add: deleteEmail_def modifyEmail_def)

subsection \<open>C6: what the sink does to the collection\<close>

text \<open>
  C6 (as amended). The sink \<^verbatim>\<open>renderEmails\<close> adds, removes and alters no scored
  message, but it sorts the array it is handed in place: the order is left alone
  exactly when the collection is already in descending order of score. The array
  is the scoring loop's own, so for a window that is not empty the collection the
  scan ends with is what the sink made of its last argument.
\<close>

theorem C6_sink_sorts_in_place:
  "mset (renderEmails emails) = mset emails \<and>
   (renderEmails emails = emails
      \<longleftrightarrow> sorted_wrt (\<lambda>a b. score (analysisData b) \<le> score (analysisData a)) emails) \<and>
   (aiSession st = Some ai \<and> fetchMessages st net (RecentUnread (twoDaysAgo div 1000)) 7 \<noteq> [] \<longrightarrow>
      (\<exists>s. scoreRecentEmails st net twoDaysAgo profile onBatchProcessed = Inr s \<and>
           sinkCalls s \<noteq> [] \<and>
           processedEmails s = onBatchProcessed (last (sinkCalls s))))"
proof (intro conjI impI)
  show "mset (renderEmails emails) = mset emails"
    by (rule renderEmails_mset)
  show "renderEmails emails = emails
      \<longleftrightarrow> sorted_wrt (\<lambda>a b. score (analysisData b) \<le> score (analysisData a)) emails"
    by (rule renderEmails_fixed_iff)
  assume "aiSession st = Some ai \<and> fetchMessages st net (RecentUnread (twoDaysAgo div 1000)) 7 \<noteq> []"
  then show "\<exists>s. scoreRecentEmails st net twoDaysAgo profile onBatchProcessed = Inr s \<and>
           sinkCalls s \<noteq> [] \<and>
           processedEmails s = onBatchProcessed (last (sinkCalls s))"
    by (simp add: scoreRecentEmails_def Let_def scoreLoop_processed_last)
qed

theorem C6_witness:
  "renderEmails [withAnalysis (msg ''b'') (scored ''b'' 90), withAnalysis (msg ''a'') (scored ''a'' 10)]
     = [withAnalysis (msg ''b'') (scored ''b'' 90), withAnalysis (msg ''a'') (scored ''a'' 10)] \<and>
   mset (renderEmails [withAnalysis (msg ''a'') (scored ''a'' 10), withAnalysis (msg ''b'') (scored ''b'' 90)])
     = mset [withAnalysis (msg ''a'') (scored ''a'' 10), withAnalysis (msg ''b'') (scored ''b'' 90)] \<and>
   renderEmails [withAnalysis (msg ''a'') (scored ''a'' 10), withAnalysis (msg ''b'') (scored ''b'' 90)]
     \<noteq> [withAnalysis (msg ''a'') (scored ''a'' 10), withAnalysis (msg ''b'') (scored ''b'' 90)] \<and>
   (\<exists>s. scoreRecentEmails (signedIn (session (\<lambda>h p. ParsedArray [scored ''a'' 10, scored ''b'' 90])))
           (mailbox [''a'', ''b'']) 0 noProfile renderEmails = Inr s \<and>
        processedEmails s = renderEmails (last (sinkCalls s)))"
proof -
  let ?S = "signedIn (session (\<lambda>h p. ParsedArray [scored ''a'' 10, scored ''b'' 90]))"
  have a: "aiSession ?S = Some (session (\<lambda>h p. ParsedArray [scored ''a'' 10, scored ''b'' 90]))"
    by (simp add: signedIn_def)
  have n: "fetchMessages ?S (mailbox [''a'', ''b'']) (RecentUnread (0 div 1000)) 7 \<noteq> []"
    by (simp add: fetch2)
  from C6_sink_sorts_in_place [of "[withAnalysis (msg ''b'') (scored ''b'' 90), withAnalysis (msg ''a'') (scored ''a'' 10)]"
      ?S "session (\<lambda>h p. ParsedArray [scored ''a'' 10, scored ''b'' 90])" "mailbox [''a'', ''b'']" 0
      noProfile renderEmails]
    C6_sink_sorts_in_place [of "[withAnalysis (msg ''a'') (scored ''a'' 10), withAnalysis (msg ''b'') (scored ''b'' 90)]"
      ?S "session (\<lambda>h p. ParsedArray [scored ''a'' 10, scored ''b'' 90])" "mailbox [''a'', ''b'']" 0
      noProfile renderEmails]
    a n
  show ?thesis
    by (simp add: withAnalysis_def scored_def) blast
qed

text \<open>
  The claim as stated fails on a window of two messages scored 10 and 90: the
  sink is handed them in fetch order and leaves the loop's collection reversed.
\<close>

theorem C6_counterexample:
  "\<not> isl (scoreRecentEmails (signedIn (session (\<lambda>h p. ParsedArray [scored ''a'' 10, scored ''b'' 90])))
            (mailbox [''a'', ''b'']) 0 noProfile renderEmails) \<and>
   map email_id (last (sinkCalls (projr (scoreRecentEmails
            (signedIn (session (\<lambda>h p. ParsedArray [scored ''a'' 10, scored ''b'' 90])))
            (mailbox [''a'', ''b'']) 0 noProfile renderEmails)))) = [''a'', ''b''] \<and>
   map email_id (processedEmails (projr (scoreRecentEmails
            (signedIn (session (\<lambda>h p. ParsedArray [scored ''a'' 10, scored ''b'' 90])))
            (mailbox [''a'', ''b'']) 0 noProfile renderEmails))) = [''b'', ''a''] \<and>
   renderEmails [withAnalysis (msg ''a'') (scored ''a'' 10), withAnalysis (msg ''b'') (scored ''b'' 90)]
     = [withAnalysis (msg ''b'') (scored ''b'' 90), withAnalysis (msg ''a'') (scored ''a'' 10)]"
  by code_simp

subsection \<open>C7: the order of the rendered collection\<close>

text \<open>
  C7 (as amended). The sort of line 422 puts the collection in descending order
  of score, so nothing above -1 comes after a placeholder; it keeps the same
  messages; it is stable, results of equal score keeping the relative order they
  had in the collection when the sort ran; and sorting again what it has sorted
  changes nothing. Ties are in the original fetch order at every render provided
  the ids of the window are pairwise different and every returned array names
  only ids of its own batch, with scores of at least -1: each rendered collection
  is then the stable descending sort of a collection in fetch order.
\<close>

theorem C7_sort_descending_stable:
  "sorted_wrt (\<lambda>a b. score (analysisData b) \<le> score (analysisData a)) (renderEmails emails) \<and>
   mset (renderEmails emails) = mset emails \<and>
   filter (\<lambda>e. score (analysisData e) = n) (renderEmails emails)
     = filter (\<lambda>e. score (analysisData e) = n) emails \<and>
   renderEmails (renderEmails emails) = renderEmails emails \<and>
   (\<forall>i j. i < j \<and> j < length emails \<and> score (analysisData (renderEmails emails ! i)) = - 1
      \<longrightarrow> score (analysisData (renderEmails emails ! j)) \<le> - 1) \<and>
   (aiSession st = Some ai \<and>
    distinct (map email_id (fetchMessages st net (RecentUnread (twoDaysAgo div 1000)) 7)) \<and>
    (\<forall>h q rs. promptScores ai h q = ParsedArray rs \<longrightarrow>
       (\<forall>r\<in>set rs. analysis_id r \<in> fst ` set (snd q) \<and> - 1 \<le> score r)) \<longrightarrow>
      (\<exists>s. scoreRecentEmails st net twoDaysAgo profile renderEmails = Inr s \<and>
         (\<exists>G. map email_id G = map email_id (fetchMessages st net (RecentUnread (twoDaysAgo div 1000)) 7) \<and>
              processedEmails s = renderEmails G) \<and>
         (\<forall>c\<in>set (sinkCalls s).
            \<exists>G. map email_id G = map email_id (fetchMessages st net (RecentUnread (twoDaysAgo div 1000)) 7) \<and>
                renderEmails c = renderEmails G)))"
proof (intro conjI)
  show desc: "sorted_wrt (\<lambda>a b. score (analysisData b) \<le> score (analysisData a)) (renderEmails emails)"
    by (rule renderEmails_descending)
  show "mset (renderEmails emails) = mset emails"
    by (rule renderEmails_mset)
  show "filter (\<lambda>e. score (analysisData e) = n) (renderEmails emails)
     = filter (\<lambda>e. score (analysisData e) = n) emails"
    by (rule renderEmails_stable)
  show "renderEmails (renderEmails emails) = renderEmails emails"
    by (rule renderEmails_idem)
  have "length (renderEmails emails) = length emails"
    by (simp add: renderEmails_sort_key)
  with desc show "\<forall>i j. i < j \<and> j < length emails \<and> score (analysisData (renderEmails emails ! i)) = - 1
      \<longrightarrow> score (analysisData (renderEmails emails ! j)) \<le> - 1"
    by (simp add: sorted_wrt_iff_nth_less) (metis)
  show "aiSession st = Some ai \<and>
    distinct (map email_id (fetchMessages st net (RecentUnread (twoDaysAgo div 1000)) 7)) \<and>
    (\<forall>h q rs. promptScores ai h q = ParsedArray rs \<longrightarrow>
       (\<forall>r\<in>set rs. analysis_id r \<in> fst ` set (snd q) \<and> - 1 \<le> score r)) \<longrightarrow>
      (\<exists>s. scoreRecentEmails st net twoDaysAgo profile renderEmails = Inr s \<and>
         (\<exists>G. map email_id G = map email_id (fetchMessages st net (RecentUnread (twoDaysAgo div 1000)) 7) \<and>
              processedEmails s = renderEmails G) \<and>
         (\<forall>c\<in>set (sinkCalls s).
            \<exists>G. map email_id G = map email_id (fetchMessages st net (RecentUnread (twoDaysAgo div 1000)) 7) \<and>
                renderEmails c = renderEmails G))"
    by (intro impI, elim conjE, rule scoreRecentEmails_fetch_order) blast+
qed

theorem C7_witness:
  "distinct (map email_id (fetchMessages (signedIn (session tiered))
      (mailbox [''a'', ''b'', ''c'', ''d'', ''e'', ''f'', ''g'']) (RecentUnread (0 div 1000)) 7)) \<and>
   (\<exists>s. scoreRecentEmails (signedIn (session tiered))
           (mailbox [''a'', ''b'', ''c'', ''d'', ''e'', ''f'', ''g'']) 0 noProfile renderEmails = Inr s \<and>
        (\<exists>G. map email_id G = [''a'', ''b'', ''c'', ''d'', ''e'', ''f'', ''g''] \<and>
             processedEmails s = renderEmails G)) \<and>
   map (\<lambda>e. (email_id e, score (analysisData e)))
     (processedEmails (projr (scoreRecentEmails (signedIn (session tiered))
        (mailbox [''a'', ''b'', ''c'', ''d'', ''e'', ''f'', ''g'']) 0 noProfile renderEmails)))
     = [(''b'', 90), (''f'', 90), (''a'', 50), (''c'', 50), (''d'', 50), (''e'', 50), (''g'', 50)]"
proof -
  let ?S = "signedIn (session tiered)"
  let ?N = "mailbox [''a'', ''b'', ''c'', ''d'', ''e'', ''f'', ''g'']"
  have a: "aiSession ?S = Some (session tiered)"
    by (simp add: signedIn_def)
  have w: "map email_id (fetchMessages ?S ?N (RecentUnread (0 div 1000)) 7)
             = [''a'', ''b'', ''c'', ''d'', ''e'', ''f'', ''g'']"
    by (simp add: fetch7 msg_def)
  have d: "distinct (map email_id (fetchMessages ?S ?N (RecentUnread (0 div 1000)) 7))"
    unfolding w by simp
  have v: "\<forall>h q rs. promptScores (session tiered) h q = ParsedArray rs \<longrightarrow>
       (\<forall>r\<in>set rs. analysis_id r \<in> fst ` set (snd q) \<and> - 1 \<le> score r)"
    by (auto simp: session_def tiered_def scored_def)
  from C7_sort_descending_stable [of "[]" 0 ?S "session tiered" ?N 0 noProfile] a d v
  have "\<exists>s. scoreRecentEmails ?S ?N 0 noProfile renderEmails = Inr s \<and>
        (\<exists>G. map email_id G = map email_id (fetchMessages ?S ?N (RecentUnread (0 div 1000)) 7) \<and>
             processedEmails s = renderEmails G)"
    by blast
  with d scanTiered show ?thesis
    unfolding w by blast
qed

text \<open>
  The claim as stated fails when the second batch's array names a message of the
  first batch: \<open>a\<close> is fetched before \<open>b\<close>, both end with score 50, and \<open>b\<close> is
  rendered first, in the order the earlier render left. It also fails when two
  messages of different batches have no id, although every array names only ids
  of its own batch: the failure of the second batch puts its record, at score 0,
  on the message of the first batch that has no id, which is fetched first and
  rendered after \<open>x\<close>, \<open>y\<close>, \<open>z\<close> and \<open>w\<close>, all at score 0.
\<close>

theorem C7_counterexample:
  "map email_id (fetchMessages (signedIn (session crossing))
      (mailbox [''a'', ''b'', ''c'', ''d'', ''e'', ''f'']) (RecentUnread 0) 7)
     = [''a'', ''b'', ''c'', ''d'', ''e'', ''f''] \<and>
   \<not> isl (scoreRecentEmails (signedIn (session crossing))
        (mailbox [''a'', ''b'', ''c'', ''d'', ''e'', ''f'']) 0 noProfile renderEmails) \<and>
   map (\<lambda>e. (email_id e, score (analysisData e)))
     (processedEmails (projr (scoreRecentEmails (signedIn (session crossing))
        (mailbox [''a'', ''b'', ''c'', ''d'', ''e'', ''f'']) 0 noProfile renderEmails)))
     = [(''b'', 50), (''a'', 50), (''c'', 20), (''d'', 20), (''e'', 20), (''f'', 5)] \<and>
   map (\<lambda>e. (email_id e, snippet e))
     (fetchMessages
        (signedIn (session (\<lambda>h q. if h = []
           then ParsedArray [scored ''x'' 0, scored ''y'' 0, scored ''z'' 0, scored ''w'' 0]
           else CallFailed)))
        (damaged [''p'', ''x'', ''y'', ''z'', ''w'', ''q''] [''p'', ''q'']) (RecentUnread 0) 7)
     = [([], ''p''), (''x'', ''text''), (''y'', ''text''), (''z'', ''text''), (''w'', ''text''),
        ([], ''q'')] \<and>
   map (\<lambda>e. (email_id e, snippet e, score (analysisData e)))
     (processedEmails (projr (scoreRecentEmails
        (signedIn (session (\<lambda>h q. if h = []
           then ParsedArray [scored ''x'' 0, scored ''y'' 0, scored ''z'' 0, scored ''w'' 0]
           else CallFailed)))
        (damaged [''p'', ''x'', ''y'', ''z'', ''w'', ''q''] [''p'', ''q'']) 0 noProfile renderEmails)))
     = [(''x'', ''text'', 0), (''y'', ''text'', 0), (''z'', ''text'', 0), (''w'', ''text'', 0),
        ([], ''p'', 0), ([], ''q'', - 1)]"
  by code_simp

subsection \<open>C8: when the stored profile is used\<close>

text \<open>
  C8. The refresh interval is 24 hours in milliseconds. When a profile and its
  timestamp are stored and \<open>now - builtAt\<close> is at most the interval, the stored
  profile is returned, \<^verbatim>\<open>generateUserProfile\<close> is not called and the storage is left
  as it is. When the profile or the timestamp is missing, or \<open>now - builtAt\<close>
  exceeds the interval, \<^verbatim>\<open>generateUserProfile\<close> is called and what it returns or
  throws is the result. The clock is taken to read later than the first day of
  1970, where the test \<^verbatim>\<open>!lastAnalysis\<close> cannot mistake a fresh timestamp for a
  missing one.
\<close>

theorem C8_profile_freshness:
  assumes "PROFILE_REFRESH_INTERVAL < now"
  shows "PROFILE_REFRESH_INTERVAL = 86400000 \<and>
    (USER_PROFILE data = Some profile \<and> LAST_ANALYSIS_TIMESTAMP data = Some builtAt \<and>
       now - builtAt \<le> PROFILE_REFRESH_INTERVAL \<longrightarrow>
         loadUserProfile st net data now buildTime
           = \<lparr>generated = False, loaded = Inr profile, stored = data\<rparr>) \<and>
    (USER_PROFILE data = None \<or> LAST_ANALYSIS_TIMESTAMP data = None \<or>
       (LAST_ANALYSIS_TIMESTAMP data = Some builtAt \<and> now - builtAt > PROFILE_REFRESH_INTERVAL) \<longrightarrow>
         generated (loadUserProfile st net data now buildTime) \<and>
         loaded (loadUserProfile st net data now buildTime)
           = map_sum (\<lambda>err. err) fst (generateUserProfile st net buildTime))"
  using assms
  by (auto simp: loadUserProfile_def isProfileStale_def Let_def PROFILE_REFRESH_INTERVAL_def
      split: option.splits sum.splits)

theorem C8_witness:
  "PROFILE_REFRESH_INTERVAL < 1700000000000 \<and>
   generated (loadUserProfile (signedIn (session (\<lambda>h p. CallFailed))) (mailbox [])
      \<lparr>USER_PROFILE = Some noProfile, LAST_ANALYSIS_TIMESTAMP = Some (1700000000000 - 86400000 - 1)\<rparr>
      1700000000000 1700000000500) \<and>
   loadUserProfile (signedIn (session (\<lambda>h p. CallFailed))) (mailbox [])
      \<lparr>USER_PROFILE = Some noProfile, LAST_ANALYSIS_TIMESTAMP = Some (1700000000000 - 1)\<rparr>
      1700000000000 1700000000500
     = \<lparr>generated = False, loaded = Inr noProfile,
        stored = \<lparr>USER_PROFILE = Some noProfile, LAST_ANALYSIS_TIMESTAMP = Some (1700000000000 - 1)\<rparr>\<rparr>"
proof -
  have n: "PROFILE_REFRESH_INTERVAL < 1700000000000"
    by (simp add: PROFILE_REFRESH_INTERVAL_def)
  from n
    C8_profile_freshness [OF n, of
      "\<lparr>USER_PROFILE = Some noProfile, LAST_ANALYSIS_TIMESTAMP = Some (1700000000000 - 86400000 - 1)\<rparr>"
      noProfile "1700000000000 - 86400000 - 1" "signedIn (session (\<lambda>h p. CallFailed))" "mailbox []"
      1700000000500]
    C8_profile_freshness [OF n, of
      "\<lparr>USER_PROFILE = Some noProfile, LAST_ANALYSIS_TIMESTAMP = Some (1700000000000 - 1)\<rparr>"
      noProfile "1700000000000 - 1" "signedIn (session (\<lambda>h p. CallFailed))" "mailbox []"
      1700000000500]
  show ?thesis
    by simp
qed

subsection \<open>C9: how often the sink is called\<close>

text \<open>
  C9. With a session available, \<^verbatim>\<open>scoreRecentEmails\<close> returns normally, and for a
  window of \<open>n\<close> messages: when \<open>n = 0\<close> the sink is called exactly once, with an
  empty collection, and no prompt is sent to the session; when \<open>n > 0\<close> the sink is
  called exactly \<open>1 + \<lceil>n / 5\<rceil>\<close> times and the session is prompted exactly \<open>\<lceil>n / 5\<rceil>\<close>
  times. The first call of the sink has the placeholders of the window; the
  prompt of batch \<open>k\<close> carries the profile and the messages \<open>5k\<close> to \<open>5k + 4\<close> of the
  window; and the call of the sink after batch \<open>k\<close> has the merge, into the
  collection as the sink left it at its previous call, of what the session made
  of that prompt, whether the call failed or not. \<open>(n + 4) div 5\<close> is the ceiling:
  the least number of fives covering \<open>n\<close>. This holds for every sink and every
  session.
\<close>

theorem C9_sink_invocations:
  assumes "aiSession st = Some ai"
  shows "\<exists>s. scoreRecentEmails st net twoDaysAgo profile onBatchProcessed = Inr s \<and>
           (let recentEmails = fetchMessages st net (RecentUnread (twoDaysAgo div 1000)) 7;
                n = length recentEmails;
                batches = (n + 4) div 5
            in n \<le> 5 * batches \<and> 5 * batches < n + 5 \<and>
               (n = 0 \<longrightarrow> sinkCalls s = [[]] \<and> prompts s = []) \<and>
               (0 < n \<longrightarrow>
                  length (sinkCalls s) = 1 + batches \<and> length (prompts s) = batches \<and>
                  sinkCalls s ! 0
                    = map (\<lambda>e. withAnalysis e (placeholderAnalysis (email_id e))) recentEmails \<and>
                  (\<forall>k<batches.
                     prompts s ! k
                       = (profile, map toEmailToScore (slice (5 * k) (5 * k + 5) recentEmails)) \<and>
                     sinkCalls s ! Suc k
                       = mergeOutcome (promptScores ai (take k (prompts s)) (prompts s ! k))
                           (slice (5 * k) (5 * k + 5) recentEmails)
                           (onBatchProcessed (sinkCalls s ! k)))))"
proof (rule scan_cases [OF assms, of net twoDaysAgo profile onBatchProcessed])
  assume "scoreRecentEmails st net twoDaysAgo profile onBatchProcessed
            = Inr \<lparr>processedEmails = [], sinkCalls = [[]], prompts = []\<rparr>"
    and "fetchMessages st net (RecentUnread (twoDaysAgo div 1000)) 7 = []"
  then show ?thesis
    by simp
next
  fix s
  assume run: "scoreRecentEmails st net twoDaysAgo profile onBatchProcessed = Inr s"
    and ne: "fetchMessages st net (RecentUnread (twoDaysAgo div 1000)) 7 \<noteq> []"
  note tr = scan_trace [OF run assms ne]
  from tr(1,2,3) tr(4) [unfolded tr(2)] run ne
    ceil5_bounds [of "length (fetchMessages st net (RecentUnread (twoDaysAgo div 1000)) 7)"]
  show ?thesis
    by (simp add: Let_def)
qed

theorem C9_witness:
  "(let s = projr (scoreRecentEmails (signedIn (session tiered)) (mailbox []) 0 noProfile renderEmails)
    in scoreRecentEmails (signedIn (session tiered)) (mailbox []) 0 noProfile renderEmails = Inr s \<and>
       sinkCalls s = [[]] \<and> prompts s = []) \<and>
   (let s = projr (scoreRecentEmails (signedIn (session tiered))
                     (mailbox [''a'', ''b'', ''c'', ''d'', ''e'', ''f'', ''g'']) 0 noProfile renderEmails)
    in scoreRecentEmails (signedIn (session tiered))
         (mailbox [''a'', ''b'', ''c'', ''d'', ''e'', ''f'', ''g'']) 0 noProfile renderEmails = Inr s \<and>
       length (sinkCalls s) = 3 \<and> length (prompts s) = 2 \<and>
       sinkCalls s ! 0 = seeded [''a'', ''b'', ''c'', ''d'', ''e'', ''f'', ''g''] \<and>
       prompts s ! 0 = (noProfile, map toEmailToScore (map msg [''a'', ''b'', ''c'', ''d'', ''e''])) \<and>
       prompts s ! 1 = (noProfile, map toEmailToScore (map msg [''f'', ''g''])) \<and>
       sinkCalls s ! 1
         = mergeOutcome (tiered (take 0 (prompts s)) (prompts s ! 0))
             (map msg [''a'', ''b'', ''c'', ''d'', ''e'']) (renderEmails (sinkCalls s ! 0)) \<and>
       sinkCalls s ! 2
         = mergeOutcome (tiered (take 1 (prompts s)) (prompts s ! 1))
             (map msg [''f'', ''g'']) (renderEmails (sinkCalls s ! 1)))"
proof -
  have a: "aiSession (signedIn (session tiered)) = Some (session tiered)"
    by (simp add: signedIn_def)
  have e: "fetchMessages (signedIn (session tiered)) (mailbox []) (RecentUnread (0 div 1000)) 7 = []"
    by (simp add: fetchMessages_def fetchMessages_try_def signedIn_def mailbox_def ok_def
        fetchDetails.simps)
  have p: "promptScores (session tiered) = tiered"
    by (simp add: session_def)
  have i: "email_id (msg x) = x" for x
    by (simp add: msg_def)
  note none = ex_Inr_projr [OF C9_sink_invocations [OF a, of "mailbox []" 0 noProfile renderEmails]]
  note seven = ex_Inr_projr [OF C9_sink_invocations [OF a,
        of "mailbox [''a'', ''b'', ''c'', ''d'', ''e'', ''f'', ''g'']" 0 noProfile renderEmails]]
  from none have 1: "let s = projr (scoreRecentEmails (signedIn (session tiered)) (mailbox []) 0 noProfile renderEmails)
    in scoreRecentEmails (signedIn (session tiered)) (mailbox []) 0 noProfile renderEmails = Inr s \<and>
       sinkCalls s = [[]] \<and> prompts s = []"
    unfolding e by (simp add: Let_def)
  from seven have 2: "let s = projr (scoreRecentEmails (signedIn (session tiered))
                     (mailbox [''a'', ''b'', ''c'', ''d'', ''e'', ''f'', ''g'']) 0 noProfile renderEmails)
    in scoreRecentEmails (signedIn (session tiered))
         (mailbox [''a'', ''b'', ''c'', ''d'', ''e'', ''f'', ''g'']) 0 noProfile renderEmails = Inr s \<and>
       length (sinkCalls s) = 3 \<and> length (prompts s) = 2 \<and>
       sinkCalls s ! 0 = seeded [''a'', ''b'', ''c'', ''d'', ''e'', ''f'', ''g''] \<and>
       prompts s ! 0 = (noProfile, map toEmailToScore (map msg [''a'', ''b'', ''c'', ''d'', ''e''])) \<and>
       prompts s ! 1 = (noProfile, map toEmailToScore (map msg [''f'', ''g''])) \<and>
       sinkCalls s ! 1
         = mergeOutcome (tiered (take 0 (prompts s)) (prompts s ! 0))
             (map msg [''a'', ''b'', ''c'', ''d'', ''e'']) (renderEmails (sinkCalls s ! 0)) \<and>
       sinkCalls s ! 2
         = mergeOutcome (tiered (take 1 (prompts s)) (prompts s ! 1))
             (map msg [''f'', ''g'']) (renderEmails (sinkCalls s ! 1))"
    unfolding fetch7 p
    by (simp add: Let_def numeral_2_eq_2 numeral_3_eq_3 All_less_Suc slice_def seeded_def i)
  from 1 2 show ?thesis ..
qed

subsection \<open>C10: the merge looks at the whole collection\<close>

text \<open>
  C10. In a scan rendered by \<^verbatim>\<open>renderEmails\<close> over a window whose ids are pairwise
  different, whenever the call for a batch comes to an array, the collection
  handed to the sink next is the collection the sink left, with every message
  whose id some entry of the array carries overwritten by the last such entry,
  and every other message as it was. So for every entry whose id is the id of a
  message of the window, that message holds afterwards the entry standing last
  for that id in the array. Neither the batch the call was made for nor what the
  message held before (placeholder, score or failure record) plays any part.
\<close>

theorem C10_merge_over_whole_window:
  assumes "aiSession st = Some ai"
    and "distinct (map email_id (fetchMessages st net (RecentUnread (twoDaysAgo div 1000)) 7))"
  shows "\<exists>s. scoreRecentEmails st net twoDaysAgo profile renderEmails = Inr s \<and>
    (\<forall>k<length (prompts s). \<forall>rs.
       promptScores ai (take k (prompts s)) (prompts s ! k) = ParsedArray rs \<longrightarrow>
         sinkCalls s ! Suc k
           = map (\<lambda>e. case find (\<lambda>r. analysis_id r = email_id e) (rev rs) of
                        None \<Rightarrow> e
                      | Some r \<Rightarrow> e\<lparr>analysisData := r\<rparr>)
               (renderEmails (sinkCalls s ! k)) \<and>
         (\<forall>r\<in>set rs.
            analysis_id r \<in> email_id ` set (fetchMessages st net (RecentUnread (twoDaysAgo div 1000)) 7) \<longrightarrow>
              (\<exists>r'. find (\<lambda>q. analysis_id q = analysis_id r) (rev rs) = Some r' \<and>
                    r' \<in> set rs \<and> analysis_id r' = analysis_id r \<and>
                    analysisOf (analysis_id r) (sinkCalls s ! Suc k) = Some r')))"
proof (rule scan_cases [OF assms(1), of net twoDaysAgo profile renderEmails])
  assume "scoreRecentEmails st net twoDaysAgo profile renderEmails
            = Inr \<lparr>processedEmails = [], sinkCalls = [[]], prompts = []\<rparr>"
  then show ?thesis
    by simp
next
  fix s
  assume run: "scoreRecentEmails st net twoDaysAgo profile renderEmails = Inr s"
    and ne: "fetchMessages st net (RecentUnread (twoDaysAgo div 1000)) 7 \<noteq> []"
  have "sinkCalls s ! Suc k
           = map (\<lambda>e. case find (\<lambda>r. analysis_id r = email_id e) (rev rs) of
                        None \<Rightarrow> e
                      | Some r \<Rightarrow> e\<lparr>analysisData := r\<rparr>)
               (renderEmails (sinkCalls s ! k)) \<and>
         (\<forall>r\<in>set rs.
            analysis_id r \<in> email_id ` set (fetchMessages st net (RecentUnread (twoDaysAgo div 1000)) 7) \<longrightarrow>
              (\<exists>r'. find (\<lambda>q. analysis_id q = analysis_id r) (rev rs) = Some r' \<and>
                    r' \<in> set rs \<and> analysis_id r' = analysis_id r \<and>
                    analysisOf (analysis_id r) (sinkCalls s ! Suc k) = Some r'))"
    if k: "k < length (prompts s)"
      and arr: "promptScores ai (take k (prompts s)) (prompts s ! k) = ParsedArray rs" for k rs
  proof (intro conjI ballI impI)
    show "sinkCalls s ! Suc k
           = map (\<lambda>e. case find (\<lambda>r. analysis_id r = email_id e) (rev rs) of
                        None \<Rightarrow> e
                      | Some r \<Rightarrow> e\<lparr>analysisData := r\<rparr>)
               (renderEmails (sinkCalls s ! k))"
      unfolding scan_step [OF run assms ne k] arr
      by (rule map_cong) (simp_all add: mergedEmail_def)
  next
    fix r
    assume r: "r \<in> set rs"
      and x: "analysis_id r \<in> email_id ` set (fetchMessages st net (RecentUnread (twoDaysAgo div 1000)) 7)"
    from r have "find (\<lambda>q. analysis_id q = analysis_id r) (rev rs) \<noteq> None"
      by (auto simp: find_None_iff)
    then obtain r' where r': "find (\<lambda>q. analysis_id q = analysis_id r) (rev rs) = Some r'"
      by blast
    then have "r' \<in> set rs" and "analysis_id r' = analysis_id r"
      by (auto dest: find_Some_in_set)
    moreover from r' have "analysisOf (analysis_id r) (sinkCalls s ! Suc k) = Some r'"
      by (simp add: analysisOf_step_array [OF run assms ne k arr x])
    ultimately show "\<exists>r'. find (\<lambda>q. analysis_id q = analysis_id r) (rev rs) = Some r' \<and>
                    r' \<in> set rs \<and> analysis_id r' = analysis_id r \<and>
                    analysisOf (analysis_id r) (sinkCalls s ! Suc k) = Some r'"
      using r' by blast
  qed
  with run show ?thesis
    by blast
qed

theorem C10_witness:
  "(let s = projr (scoreRecentEmails (signedIn (session crossing))
               (mailbox [''a'', ''b'', ''c'', ''d'', ''e'', ''f'']) 0 noProfile renderEmails)
    in prompts s ! 1 = (noProfile, map toEmailToScore [msg ''f'']) \<and>
       promptScores (session crossing) (take 1 (prompts s)) (prompts s ! 1)
         = ParsedArray [scored ''f'' 5, scored ''a'' 50] \<and>
       analysisOf ''a'' (sinkCalls s ! 1) = Some (scored ''a'' 10) \<and>
       analysisOf ''a'' (sinkCalls s ! 2) = Some (scored ''a'' 50)) \<and>
   (let s = projr (scoreRecentEmails (signedIn (session revisiting))
               (mailbox [''a'', ''b'', ''c'', ''d'', ''e'', ''f'']) 0 noProfile renderEmails)
    in prompts s ! 1 = (noProfile, map toEmailToScore [msg ''f'']) \<and>
       promptScores (session revisiting) (take 1 (prompts s)) (prompts s ! 1)
         = ParsedArray [scored ''f'' 5, scored ''a'' 50] \<and>
       analysisOf ''a'' (sinkCalls s ! 1) = Some (failedAnalysis ''a'') \<and>
       analysisOf ''a'' (sinkCalls s ! 2) = Some (scored ''a'' 50))"
proof -
  let ?N = "mailbox [''a'', ''b'', ''c'', ''d'', ''e'', ''f'']"
  have w: "map email_id (fetchMessages (signedIn ai) ?N (RecentUnread (0 div 1000)) 7)
             = [''a'', ''b'', ''c'', ''d'', ''e'', ''f'']" for ai
    by (simp add: fetchMessages_def fetchMessages_try_def signedIn_def mailbox_def ok_def
        fetchDetails.simps slice_def concurrency_def msg_def)
  have a: "aiSession (signedIn ai) = Some ai" for ai
    by (simp add: signedIn_def)
  have d: "distinct (map email_id (fetchMessages (signedIn ai) ?N (RecentUnread (0 div 1000)) 7))" for ai
    unfolding w by simp
  have x: "analysis_id (scored ''a'' 50)
             \<in> email_id ` set (fetchMessages (signedIn ai) ?N (RecentUnread (0 div 1000)) 7)" for ai
    unfolding set_map [symmetric] w by (simp add: scored_def)
  have m: "scored ''a'' 50 \<in> set [scored ''f'' 5, scored ''a'' 50]"
    by simp
  have i: "analysis_id (scored ''a'' 50) = ''a''"
    by (simp add: scored_def)
  let ?s1 = "projr (scoreRecentEmails (signedIn (session crossing)) ?N 0 noProfile renderEmails)"
  have c1: "Suc 0 < length (prompts ?s1)"
    and c2: "prompts ?s1 ! 1 = (noProfile, map toEmailToScore [msg ''f''])"
    and c3: "promptScores (session crossing) (take (Suc 0) (prompts ?s1)) (prompts ?s1 ! Suc 0)
         = ParsedArray [scored ''f'' 5, scored ''a'' 50]"
    and c4: "analysisOf ''a'' (sinkCalls ?s1 ! 1) = Some (scored ''a'' 10)"
    by code_simp+
  note t1 = ex_Inr_projr [OF C10_merge_over_whole_window
      [OF a [of "session crossing"] d [of "session crossing"], where profile = noProfile]]
  from t1 c1 c3 m x [of "session crossing"]
  have "\<exists>r'. find (\<lambda>q. analysis_id q = analysis_id (scored ''a'' 50)) (rev [scored ''f'' 5, scored ''a'' 50]) = Some r' \<and>
              r' \<in> set [scored ''f'' 5, scored ''a'' 50] \<and> analysis_id r' = analysis_id (scored ''a'' 50) \<and>
              analysisOf (analysis_id (scored ''a'' 50)) (sinkCalls ?s1 ! Suc (Suc 0)) = Some r'"
    by blast
  then have r1: "analysisOf ''a'' (sinkCalls ?s1 ! 2) = Some (scored ''a'' 50)"
    by (auto simp: i numeral_2_eq_2)
  let ?s2 = "projr (scoreRecentEmails (signedIn (session revisiting)) ?N 0 noProfile renderEmails)"
  have e1: "Suc 0 < length (prompts ?s2)"
    and e2: "prompts ?s2 ! 1 = (noProfile, map toEmailToScore [msg ''f''])"
    and e3: "promptScores (session revisiting) (take (Suc 0) (prompts ?s2)) (prompts ?s2 ! Suc 0)
         = ParsedArray [scored ''f'' 5, scored ''a'' 50]"
    and e4: "analysisOf ''a'' (sinkCalls ?s2 ! 1) = Some (failedAnalysis ''a'')"
    by code_simp+
  note t2 = ex_Inr_projr [OF C10_merge_over_whole_window
      [OF a [of "session revisiting"] d [of "session revisiting"], where profile = noProfile]]
  from t2 e1 e3 m x [of "session revisiting"]
  have "\<exists>r'. find (\<lambda>q. analysis_id q = analysis_id (scored ''a'' 50)) (rev [scored ''f'' 5, scored ''a'' 50]) = Some r' \<and>
              r' \<in> set [scored ''f'' 5, scored ''a'' 50] \<and> analysis_id r' = analysis_id (scored ''a'' 50) \<and>
              analysisOf (analysis_id (scored ''a'' 50)) (sinkCalls ?s2 ! Suc (Suc 0)) = Some r'"
    by blast
  then have r2: "analysisOf ''a'' (sinkCalls ?s2 ! 2) = Some (scored ''a'' 50)"
    by (auto simp: i numeral_2_eq_2)
  from c2 c3 c4 r1 e2 e3 e4 r2 show ?thesis
    by (simp add: Let_def)
qed

end
